theory Spec2Isabelle
  imports Complex_Main "HOL-Library.Finite_Map"
begin

section \<open>Python values\<close>

text \<open>
  Log entries are parsed JSON, so the values found in an event's \<open>data\<close> dictionary or in a
  session log entry are JSON values. Integers and floats are kept apart, as \<open>json.loads\<close>
  does; a float is represented by the rational it denotes, and arithmetic on timings and
  rates is exact (rounding of IEEE doubles is not modelled). Strings are ASCII texts.
  Objects are finite maps: the entries read here are only looked up by key.
\<close>

datatype json = JNull | JBool bool | JInt int | JFloat rat | JStr string
  | JArr "json list" | JObj "(string, json) fmap"

datatype py_error = TypeError | AttributeError

type_synonym pydict = "(string, json) fmap"

text \<open>\<open>d.get(k)\<close> and \<open>d.get(k, default)\<close>.\<close>

definition get :: "pydict \<Rightarrow> string \<Rightarrow> json" where
  "get d k = (case fmlookup d k of None \<Rightarrow> JNull | Some v \<Rightarrow> v)"

definition get_or :: "pydict \<Rightarrow> string \<Rightarrow> json \<Rightarrow> json" where
  "get_or d k dflt = (case fmlookup d k of None \<Rightarrow> dflt | Some v \<Rightarrow> v)"

text \<open>\<open>event.metrics.get(k, default)\<close> on a dictionary of numbers.\<close>

definition metric_or :: "(string, rat) fmap \<Rightarrow> string \<Rightarrow> rat \<Rightarrow> rat" where
  "metric_or m k dflt = (case fmlookup m k of None \<Rightarrow> dflt | Some v \<Rightarrow> v)"

text \<open>Truth value of an object in a condition.\<close>

fun truthy :: "json \<Rightarrow> bool" where
  "truthy JNull = False"
| "truthy (JBool b) = b"
| "truthy (JInt i) = (i \<noteq> 0)"
| "truthy (JFloat r) = (r \<noteq> 0)"
| "truthy (JStr s) = (s \<noteq> [])"
| "truthy (JArr xs) = (xs \<noteq> [])"
| "truthy (JObj m) = (m \<noteq> fmempty)"

text \<open>Lists and dictionaries cannot be dictionary keys: hashing them raises \<open>TypeError\<close>.\<close>

fun hashable :: "json \<Rightarrow> bool" where
  "hashable (JArr xs) = False"
| "hashable (JObj m) = False"
| "hashable v = True"

text \<open>
  Python's \<open>==\<close> identifies \<open>True\<close> with \<open>1\<close> and \<open>1\<close> with \<open>1.0\<close>, also inside lists
  and dictionaries, and equal keys share one dictionary slot. \<open>norm\<close> picks the
  representative of a value under \<open>==\<close>.
\<close>

primrec norm :: "json \<Rightarrow> json" where
  "norm JNull = JNull"
| "norm (JBool b) = JInt (if b then 1 else 0)"
| "norm (JInt i) = JInt i"
| "norm (JFloat r) = (if r = of_int \<lfloor>r\<rfloor> then JInt \<lfloor>r\<rfloor> else JFloat r)"
| "norm (JStr s) = JStr s"
| "norm (JArr xs) = JArr (map norm xs)"
| "norm (JObj m) = JObj (fmmap norm m)"

definition py_eq :: "json \<Rightarrow> json \<Rightarrow> bool" where
  "py_eq a b = (norm a = norm b)"

text \<open>The slice \<open>xs[-n:]\<close>: the last \<open>n\<close> elements, all of them when there are fewer.\<close>

definition last_n :: "nat \<Rightarrow> 'a list \<Rightarrow> 'a list" where
  "last_n n xs = drop (length xs - n) xs"

subsection \<open>Strings\<close>

text \<open>\<open>str.lower\<close>, \<open>str.split\<close> without argument and \<open>str.replace(" ", "_")\<close> on ASCII text.\<close>

definition lower_char :: "char \<Rightarrow> char" where
  "lower_char c =
     (if 65 \<le> (of_char c :: nat) \<and> (of_char c :: nat) \<le> 90
      then char_of ((of_char c :: nat) + 32) else c)"

definition lower :: "string \<Rightarrow> string" where
  "lower s = map lower_char s"

definition is_space :: "char \<Rightarrow> bool" where
  "is_space c = ((of_char c :: nat) \<in> {9, 10, 11, 12, 13, 28, 29, 30, 31, 32})"

fun split_from :: "string \<Rightarrow> string \<Rightarrow> string list" where
  "split_from w [] = (if w = [] then [] else [w])"
| "split_from w (c # cs) =
     (if is_space c then (if w = [] then split_from [] cs else w # split_from [] cs)
      else split_from (w @ [c]) cs)"

definition split :: "string \<Rightarrow> string list" where
  "split s = split_from [] s"

definition replace_space :: "string \<Rightarrow> string" where
  "replace_space s = map (\<lambda>c. if c = CHR '' '' then CHR ''_'' else c) s"

section \<open>The similarity scorer (log_analyzer.py, \<open>_similarity_score\<close>)\<close>

text \<open>
  Source names starting with an underscore are written without it.
  \<open>similarity_score\<close> is the function on strings, as its signature declares;
  \<open>call_similarity_score\<close> is a call with arbitrary values: \<open>text1.lower()\<close> raises
  \<open>AttributeError\<close> on anything that is not a string.
\<close>

definition similarity_score :: "string \<Rightarrow> string \<Rightarrow> rat" where
  "similarity_score text1 text2 =
     (let words1 = set (split (lower text1));
          words2 = set (split (lower text2))
      in if words1 = {} \<or> words2 = {} then 0
         else let intersection = words1 \<inter> words2;
                  union = words1 \<union> words2
              in if union \<noteq> {} then of_nat (card intersection) / of_nat (card union) else 0)"

fun call_similarity_score :: "json \<Rightarrow> json \<Rightarrow> py_error + rat" where
  "call_similarity_score (JStr text1) (JStr text2) = Inr (similarity_score text1 text2)"
| "call_similarity_score v w = Inl AttributeError"

text \<open>
  The specification's wording of the scorer: the Jaccard index of two token sets, and the
  token set of a text (case-folded, split at whitespace).
\<close>

definition jaccard :: "'a set \<Rightarrow> 'a set \<Rightarrow> rat" where
  "jaccard A B = (if A = {} \<or> B = {} then 0 else of_nat (card (A \<inter> B)) / of_nat (card (A \<union> B)))"

definition tokens :: "string \<Rightarrow> string set" where
  "tokens s = set (split (lower s))"

section \<open>Events and findings (log_analyzer.py)\<close>

text \<open>
  \<open>LogEvent\<close> is the dataclass with the types its fields declare. \<open>__post_init__\<close> replaces
  a missing \<open>metrics\<close> by the empty dictionary, so \<open>metrics\<close> is always a dictionary.
\<close>

record LogEvent =
  event_type :: string
  session_id :: string
  timestamp :: string
  data :: pydict
  metrics :: "(string, rat) fmap"
  project_path :: "string option"

datatype severity = high | medium

text \<open>
  The dictionaries the detectors return, one constructor for each \<open>'type'\<close>:
  \<open>slow_tool_execution tool_name execution_time baseline severity\<close>,
  \<open>recurring_error tool_name error_message occurrence_count severity\<close>,
  \<open>high_success_agent agent_name success_rate sample_size\<close>,
  \<open>unusual_session_duration session_duration baseline_median severity\<close>.
\<close>

datatype finding =
    slow_tool_execution json rat rat severity
  | recurring_error json json nat severity
  | high_success_agent json rat nat
  | unusual_session_duration rat rat severity

text \<open>
  The state of a \<open>PatternDetector\<close>. A \<open>defaultdict(list)\<close> is a total function with
  default \<open>[]\<close>, read and written at the representative \<open>norm k\<close> of a hashable key.
\<close>

record PatternDetector =
  command_timings :: "json \<Rightarrow> rat list"
  agent_success_rates :: "json \<Rightarrow> json list"
  session_patterns :: "json \<Rightarrow> json list"
  recent_events :: "LogEvent list"

definition init :: PatternDetector where
  "init = \<lparr>command_timings = (\<lambda>k. []), agent_success_rates = (\<lambda>k. []),
            session_patterns = (\<lambda>k. []), recent_events = []\<rparr>"

text \<open>\<open>deque(maxlen=n).append\<close>: a full deque drops its oldest element.\<close>

definition deque_append :: "nat \<Rightarrow> 'a list \<Rightarrow> 'a \<Rightarrow> 'a list" where
  "deque_append n xs x = (if length xs \<ge> n then tl xs @ [x] else xs @ [x])"

text \<open>
  \<open>np.median\<close>: the middle element of the sorted sample, the mean of the two middle ones
  when the size is even. It is called on samples of more than 5 elements only (on an empty
  sample numpy returns nan).
\<close>

definition median :: "rat list \<Rightarrow> rat" where
  "median xs =
     (let s = sort xs; n = length s
      in if n mod 2 = 1 then s ! (n div 2) else (s ! (n div 2 - 1) + s ! (n div 2)) / 2)"

section \<open>The detectors (log_analyzer.py, \<open>PatternDetector\<close>)\<close>

text \<open>
  A detector returns the state it leaves behind and either the exception it raised or its
  findings. \<open>recent_timings\<close> is the slice the performance detector reads.
\<close>

definition recent_timings :: "PatternDetector \<Rightarrow> json \<Rightarrow> rat list" where
  "recent_timings s tool_name = last_n 20 (command_timings s (norm tool_name))"

definition detect_performance_issues ::
  "PatternDetector \<Rightarrow> LogEvent \<Rightarrow> PatternDetector \<times> (py_error + finding list)" where
  "detect_performance_issues s event =
     (if event_type event = ''tool_use'' \<and> metrics event \<noteq> fmempty then
        let execution_time = metric_or (metrics event) ''execution_time'' 0;
            tool_name = get_or (data event) ''tool_name'' (JStr ''unknown'')
        in if \<not> hashable tool_name then (s, Inl TypeError)
           else
             let k = norm tool_name;
                 s' = s\<lparr>command_timings :=
                          (command_timings s)(k := command_timings s k @ [execution_time])\<rparr>;
                 timings = recent_timings s' tool_name
             in (s', Inr
                  (if length timings > 5 then
                     let baseline = median timings
                     in if execution_time > baseline * 2 then
                          [slow_tool_execution tool_name execution_time baseline
                             (if execution_time > baseline * 3 then high else medium)]
                        else []
                   else []))
      else (s, Inr []))"

text \<open>
  The comprehension \<open>similar_errors\<close>: the events of the window that are \<open>tool_use\<close>
  events with a truthy \<open>error\<close> whose similarity to \<open>error_msg\<close> is above 0.8. The
  conditions are evaluated left to right, and the score raises on an error that is not
  a string.
\<close>

fun similar_errors :: "LogEvent list \<Rightarrow> json \<Rightarrow> py_error + LogEvent list" where
  "similar_errors [] error_msg = Inr []"
| "similar_errors (e # es) error_msg =
     (if event_type e = ''tool_use'' \<and> truthy (get (data e) ''error'') then
        (case call_similarity_score (get (data e) ''error'') error_msg of
           Inl err \<Rightarrow> Inl err
         | Inr score \<Rightarrow>
             (case similar_errors es error_msg of
                Inl err \<Rightarrow> Inl err
              | Inr rest \<Rightarrow> Inr (if score > 8 / 10 then e # rest else rest)))
      else similar_errors es error_msg)"

definition detect_error_patterns :: "PatternDetector \<Rightarrow> LogEvent \<Rightarrow> py_error + finding list" where
  "detect_error_patterns s event =
     (if event_type event = ''tool_use'' \<and> truthy (get (data event) ''error'') then
        let error_msg = get (data event) ''error'';
            tool_name = get_or (data event) ''tool_name'' (JStr ''unknown'')
        in (case similar_errors (recent_events s) error_msg of
              Inl err \<Rightarrow> Inl err
            | Inr similar \<Rightarrow>
                Inr (if length similar > 3 then
                       [recurring_error tool_name error_msg (length similar) high]
                     else []))
      else Inr [])"

text \<open>\<open>sum\<close> over recorded success values: it starts from 0 and adds numbers and booleans.\<close>

fun py_sum :: "json list \<Rightarrow> py_error + rat" where
  "py_sum [] = Inr 0"
| "py_sum (v # vs) =
     (case py_sum vs of
        Inl err \<Rightarrow> Inl err
      | Inr t \<Rightarrow>
          (case v of
             JBool b \<Rightarrow> Inr ((if b then 1 else 0) + t)
           | JInt i \<Rightarrow> Inr (of_int i + t)
           | JFloat r \<Rightarrow> Inr (r + t)
           | _ \<Rightarrow> Inl TypeError))"

definition recent_successes :: "PatternDetector \<Rightarrow> json \<Rightarrow> json list" where
  "recent_successes s agent_name = last_n 10 (agent_success_rates s (norm agent_name))"

definition detect_success_indicators ::
  "PatternDetector \<Rightarrow> LogEvent \<Rightarrow> PatternDetector \<times> (py_error + finding list)" where
  "detect_success_indicators s event =
     (if event_type event = ''agent_complete'' then
        let agent_name = get_or (data event) ''agent_name'' (JStr ''unknown'');
            success = get_or (data event) ''success'' (JBool False)
        in if \<not> hashable agent_name then (s, Inl TypeError)
           else
             let k = norm agent_name;
                 s' = s\<lparr>agent_success_rates :=
                          (agent_success_rates s)(k := agent_success_rates s k @ [success])\<rparr>;
                 recent = recent_successes s' agent_name
             in (s',
                  (if length recent \<ge> 5 then
                     (case py_sum recent of
                        Inl err \<Rightarrow> Inl err
                      | Inr successes \<Rightarrow>
                          let success_rate = successes / of_nat (length recent)
                          in Inr (if success_rate > 8 / 10 then
                                    [high_success_agent agent_name success_rate (length recent)]
                                  else []))
                   else Inr []))
      else (s, Inr []))"

text \<open>
  The anomaly detector fits a scikit-learn \<open>IsolationForest\<close> on the session durations
  of the window and asks it about the current duration. The library is not part of the
  repository: its verdict is the parameter \<open>is_anomaly\<close>, applied to the sample and the
  current duration.
\<close>

definition detect_anomalies ::
  "(rat list \<Rightarrow> rat \<Rightarrow> bool) \<Rightarrow> PatternDetector \<Rightarrow> LogEvent \<Rightarrow> finding list" where
  "detect_anomalies is_anomaly s event =
     (if event_type event = ''session_end'' then
        let session_duration = metric_or (metrics event) ''session_duration'' 0;
            recent_durations =
              map (\<lambda>e. metric_or (metrics e) ''session_duration'' 0)
                (filter (\<lambda>e. event_type e = ''session_end'' \<and> metrics e \<noteq> fmempty)
                   (recent_events s))
        in if length recent_durations > 10 then
             (if is_anomaly recent_durations session_duration then
                [unusual_session_duration session_duration (median recent_durations) medium]
              else [])
           else []
      else [])"

record analysis =
  performance_issues :: "finding list"
  error_patterns :: "finding list"
  success_indicators :: "finding list"
  anomalies :: "finding list"

text \<open>
  \<open>analyze_event\<close> stores the event in the window and runs the four detectors in
  order. It has no exception handler: the first exception a detector raises leaves
  \<open>analyze_event\<close>, with the state as changed so far.
\<close>

definition analyze_event ::
  "(rat list \<Rightarrow> rat \<Rightarrow> bool) \<Rightarrow> PatternDetector \<Rightarrow> LogEvent
     \<Rightarrow> PatternDetector \<times> (py_error + analysis)" where
  "analyze_event is_anomaly s event =
     (let s0 = s\<lparr>recent_events := deque_append 1000 (recent_events s) event\<rparr>;
          (s1, r1) = detect_performance_issues s0 event
      in case r1 of
           Inl err \<Rightarrow> (s1, Inl err)
         | Inr perf \<Rightarrow>
             (case detect_error_patterns s1 event of
                Inl err \<Rightarrow> (s1, Inl err)
              | Inr errs \<Rightarrow>
                  (let (s2, r2) = detect_success_indicators s1 event
                   in case r2 of
                        Inl err \<Rightarrow> (s2, Inl err)
                      | Inr succ \<Rightarrow>
                          (s2, Inr \<lparr>performance_issues = perf, error_patterns = errs,
                                    success_indicators = succ,
                                    anomalies = detect_anomalies is_anomaly s2 event\<rparr>))))"

text \<open>
  The event loop of \<open>LogAnalyzer.analyze_log_file\<close>, from the list of events built from
  the file: every event goes through \<open>analyze_event\<close>, and an event whose analysis has a
  non-empty list is recorded with it. The loop runs inside
  \<open>try: ... except (json.JSONDecodeError, Exception)\<close>, whose handler returns the error
  dictionary instead of the results: an exception in any event yields \<open>Inl\<close>. The
  recommendations, computed from the recorded patterns alone, are left out.
\<close>

definition any_values :: "analysis \<Rightarrow> bool" where
  "any_values a = (performance_issues a \<noteq> [] \<or> error_patterns a \<noteq> []
                   \<or> success_indicators a \<noteq> [] \<or> anomalies a \<noteq> [])"

fun analyze_events ::
  "(rat list \<Rightarrow> rat \<Rightarrow> bool) \<Rightarrow> PatternDetector \<Rightarrow> LogEvent list
     \<Rightarrow> (LogEvent \<times> analysis) list
     \<Rightarrow> PatternDetector \<times> (py_error + (LogEvent \<times> analysis) list)" where
  "analyze_events is_anomaly s [] patterns = (s, Inr patterns)"
| "analyze_events is_anomaly s (event # events) patterns =
     (case analyze_event is_anomaly s event of
        (s', Inl err) \<Rightarrow> (s', Inl err)
      | (s', Inr event_analysis) \<Rightarrow>
          analyze_events is_anomaly s' events
            (if any_values event_analysis then patterns @ [(event, event_analysis)]
             else patterns))"

definition analyze_log_file ::
  "(rat list \<Rightarrow> rat \<Rightarrow> bool) \<Rightarrow> PatternDetector \<Rightarrow> LogEvent list
     \<Rightarrow> PatternDetector \<times> (py_error + (LogEvent \<times> analysis) list)" where
  "analyze_log_file is_anomaly s events = analyze_events is_anomaly s events []"

subsection \<open>Example events\<close>

text \<open>
  A classifier that reports no anomaly, and the events used in the examples: a \<open>tool_use\<close>
  event of a tool with the given metrics, one that carries an execution time, a
  \<open>tool_use\<close> event with an \<open>error\<close> field and no metrics, and an \<open>agent_complete\<close> event.
\<close>

definition no_anomaly :: "rat list \<Rightarrow> rat \<Rightarrow> bool" where
  "no_anomaly sample x = False"

definition metrics_event :: "string \<Rightarrow> (string \<times> rat) list \<Rightarrow> LogEvent" where
  "metrics_event nm ms =
     \<lparr>event_type = ''tool_use'', session_id = ''s1'', timestamp = ''2025-01-10T10:00:00Z'',
      data = fmap_of_list [(''tool_name'', JStr nm)],
      metrics = fmap_of_list ms, project_path = None\<rparr>"

definition tool_event :: "string \<Rightarrow> rat \<Rightarrow> LogEvent" where
  "tool_event nm t = metrics_event nm [(''execution_time'', t)]"

definition error_event :: "string \<Rightarrow> json \<Rightarrow> LogEvent" where
  "error_event nm err =
     \<lparr>event_type = ''tool_use'', session_id = ''s1'', timestamp = ''2025-01-10T10:00:00Z'',
      data = fmap_of_list [(''tool_name'', JStr nm), (''error'', err)],
      metrics = fmempty, project_path = None\<rparr>"

definition agent_event :: "string \<Rightarrow> json \<Rightarrow> LogEvent" where
  "agent_event nm flag =
     \<lparr>event_type = ''agent_complete'', session_id = ''s1'', timestamp = ''2025-01-10T10:00:00Z'',
      data = fmap_of_list [(''agent_name'', JStr nm), (''success'', flag)],
      metrics = fmempty, project_path = None\<rparr>"

text \<open>The mean of a list of success flags: the share of \<open>True\<close> among them.\<close>

definition flag_mean :: "json list \<Rightarrow> rat" where
  "flag_mean flags = of_nat (length (filter (\<lambda>v. v = JBool True) flags)) / of_nat (length flags)"

section \<open>Session analysis (session_improvement.py)\<close>

text \<open>
  The hook works on the log entries of one session, a list of dictionaries in timestamp
  order. Three things come from outside the repository and are parameters: \<open>repr\<close>, the
  text Python's \<open>str()\<close> gives for a value that is not a string (used by f-strings);
  \<open>digest\<close>, the first 8 hex digits of the MD5 of the JSON dump of a tool list; and the
  clock. Fields that are the same constant in every returned dictionary
  (\<open>potential_command\<close>, \<open>potential_hook\<close>, \<open>potential_agent\<close>, \<open>suggested_improvement\<close>,
  \<open>suggested_hook_type\<close>) are left out.
\<close>

definition py_format :: "(json \<Rightarrow> string) \<Rightarrow> json \<Rightarrow> string" where
  "py_format repr v = (case v of JStr s \<Rightarrow> s | _ \<Rightarrow> repr v)"

definition tool_bearing :: "pydict \<Rightarrow> bool" where
  "tool_bearing entry = truthy (get entry ''tool_name'')"

subsection \<open>\<open>detect_patterns\<close>\<close>

text \<open>
  \<open>tool_sequence sequence occurrences suggested_name\<close> and \<open>error_retry tool error\<close>.
\<close>

datatype pattern =
    tool_sequence "json list" nat string
  | error_retry json json

text \<open>
  Pattern 1, first loop: for every index \<open>i\<close> in \<open>range(len(logs) - 2)\<close> whose entries
  \<open>i\<close>, \<open>i+1\<close>, \<open>i+2\<close> all have a truthy \<open>tool_name\<close>, the triple of the three names.
\<close>

definition tool_triples :: "pydict list \<Rightarrow> (json \<times> json \<times> json) list" where
  "tool_triples logs =
     concat (map (\<lambda>i. if tool_bearing (logs ! i) \<and> tool_bearing (logs ! (i + 1))
                            \<and> tool_bearing (logs ! (i + 2))
                         then [(get (logs ! i) ''tool_name'', get (logs ! (i + 1)) ''tool_name'',
                                get (logs ! (i + 2)) ''tool_name'')]
                         else [])
               [0 ..< length logs - 2])"

text \<open>
  \<open>Counter(tool_sequences)\<close>: a dictionary in insertion order, from each distinct triple
  (up to \<open>==\<close>, the first one met is the key kept) to its number of occurrences. A triple
  with an unhashable component raises \<open>TypeError\<close>.
\<close>

definition key3 :: "json \<times> json \<times> json \<Rightarrow> json \<times> json \<times> json" where
  "key3 t = (case t of (a, b, c) \<Rightarrow> (norm a, norm b, norm c))"

definition hashable3 :: "json \<times> json \<times> json \<Rightarrow> bool" where
  "hashable3 t = (case t of (a, b, c) \<Rightarrow> hashable a \<and> hashable b \<and> hashable c)"

fun counter_add ::
  "json \<times> json \<times> json \<Rightarrow> ((json \<times> json \<times> json) \<times> nat) list
     \<Rightarrow> ((json \<times> json \<times> json) \<times> nat) list" where
  "counter_add t [] = [(t, 1)]"
| "counter_add t ((u, n) # c) =
     (if key3 u = key3 t then (u, n + 1) # c else (u, n) # counter_add t c)"

definition counter :: "(json \<times> json \<times> json) list \<Rightarrow> ((json \<times> json \<times> json) \<times> nat) list" where
  "counter xs = foldl (\<lambda>c t. counter_add t c) [] xs"

text \<open>The number of occurrences of a triple in a list, up to \<open>==\<close>.\<close>

definition occurrences :: "(json \<times> json \<times> json) list \<Rightarrow> json \<times> json \<times> json \<Rightarrow> nat" where
  "occurrences xs t = length (filter (\<lambda>u. key3 u = key3 t) xs)"

definition suggested_name :: "(json \<Rightarrow> string) \<Rightarrow> json \<times> json \<times> json \<Rightarrow> string" where
  "suggested_name repr t =
     (case t of (a, b, c) \<Rightarrow>
        replace_space (lower (py_format repr a @ ''_'' @ py_format repr c @ ''_flow'')))"

definition sequence_patterns ::
  "(json \<Rightarrow> string) \<Rightarrow> ((json \<times> json \<times> json) \<times> nat) list \<Rightarrow> pattern list" where
  "sequence_patterns repr sequence_counts =
     map (\<lambda>(t, n). case t of (a, b, c) \<Rightarrow> tool_sequence [a, b, c] n (suggested_name repr t))
       (filter (\<lambda>(t, n). n \<ge> 2) sequence_counts)"

text \<open>
  Pattern 2: an entry with \<open>success == False\<close> followed by an entry with the same
  \<open>tool_name\<close>; the loop also runs over \<open>range(len(logs) - 2)\<close>.
\<close>

definition error_retries :: "pydict list \<Rightarrow> pattern list" where
  "error_retries logs =
     concat (map (\<lambda>i. if py_eq (get (logs ! i) ''success'') (JBool False) \<and> i + 1 < length logs
                            \<and> py_eq (get (logs ! (i + 1)) ''tool_name'') (get (logs ! i) ''tool_name'')
                         then [error_retry (get (logs ! i) ''tool_name'')
                                 (get_or (logs ! i) ''error'' (JStr ''Unknown error''))]
                         else [])
               [0 ..< length logs - 2])"

definition detect_patterns :: "(json \<Rightarrow> string) \<Rightarrow> pydict list \<Rightarrow> py_error + pattern list" where
  "detect_patterns repr logs =
     (let tool_sequences = tool_triples logs
      in if list_ex (\<lambda>t. \<not> hashable3 t) tool_sequences then Inl TypeError
         else Inr (sequence_patterns repr (counter tool_sequences) @ error_retries logs))"

subsection \<open>\<open>find_tool_sequences\<close>\<close>

datatype tool_step = ToolStep (st_tool: json) (st_success: json) (st_timestamp: json)

datatype workflow =
  Workflow (wf_id: string) (wf_length: nat) (wf_tools: "json list") (wf_success_rate: rat)

definition mk_step :: "pydict \<Rightarrow> tool_step" where
  "mk_step entry =
     ToolStep (get entry ''tool_name'') (get_or entry ''success'' (JBool True)) (get entry ''timestamp'')"

definition mk_workflow :: "(json list \<Rightarrow> string) \<Rightarrow> tool_step list \<Rightarrow> workflow" where
  "mk_workflow digest current_sequence =
     Workflow (digest (map st_tool current_sequence)) (length current_sequence)
       (map st_tool current_sequence)
       (of_nat (length (filter (\<lambda>t. truthy (st_success t)) current_sequence))
          / of_nat (length current_sequence))"

text \<open>
  The loop over the log, with the two variables \<open>sequences\<close> and \<open>current_sequence\<close>. An
  entry without a tool name changes neither of them.
\<close>

fun tool_sequence_loop ::
  "(json list \<Rightarrow> string) \<Rightarrow> pydict list \<Rightarrow> workflow list \<Rightarrow> tool_step list \<Rightarrow> workflow list" where
  "tool_sequence_loop digest [] sequences current_sequence = sequences"
| "tool_sequence_loop digest (entry # logs) sequences current_sequence =
     (if tool_bearing entry then
        (let current = current_sequence @ [mk_step entry]
         in if length current \<ge> 5 then
              tool_sequence_loop digest logs (sequences @ [mk_workflow digest current])
                (last_n 2 current)
            else tool_sequence_loop digest logs sequences current)
      else tool_sequence_loop digest logs sequences current_sequence)"

definition find_tool_sequences :: "(json list \<Rightarrow> string) \<Rightarrow> pydict list \<Rightarrow> workflow list" where
  "find_tool_sequences digest logs = tool_sequence_loop digest logs [] []"

text \<open>
  The specification's wording of the extraction: the tool-bearing entries of the session,
  cut into chunks of 5 that overlap by 2 (each chunk starts 3 entries after the one
  before).
\<close>

definition steps_of :: "pydict list \<Rightarrow> tool_step list" where
  "steps_of logs = map mk_step (filter tool_bearing logs)"

function overlapping_chunks :: "'a list \<Rightarrow> 'a list list" where
  "overlapping_chunks xs =
     (if length xs \<ge> 5 then take 5 xs # overlapping_chunks (drop 3 xs) else [])"
  by pat_completeness auto
termination
  by (relation "measure length") auto

declare overlapping_chunks.simps [simp del]

subsection \<open>\<open>find_error_patterns\<close>\<close>

text \<open>
  The slice \<open>v[:n]\<close> of a value: defined on strings and lists, \<open>TypeError\<close> on \<open>None\<close>,
  numbers and booleans (on a dictionary Python up to 3.11 raises \<open>TypeError\<close> as well).
\<close>

fun py_slice :: "nat \<Rightarrow> json \<Rightarrow> py_error + json" where
  "py_slice n (JStr s) = Inr (JStr (take n s))"
| "py_slice n (JArr xs) = Inr (JArr (take n xs))"
| "py_slice n v = Inl TypeError"

text \<open>
  A group of \<open>error_groups\<close>: the fields \<open>tool\<close>, \<open>error\<close>, \<open>occurrences\<close>, \<open>timestamps\<close>.
  The dictionary keeps its keys in insertion order.
\<close>

datatype error_group =
  ErrorGroup (eg_tool: json) (eg_error: json) (eg_occurrences: nat) (eg_timestamps: "json list")

fun group_add :: "string \<Rightarrow> pydict \<Rightarrow> (string \<times> error_group) list \<Rightarrow> (string \<times> error_group) list" where
  "group_add error_key entry [] =
     [(error_key, ErrorGroup (get entry ''tool_name'') (get entry ''error'') 1 [get entry ''timestamp''])]"
| "group_add error_key entry ((k, g) # groups) =
     (if k = error_key then
        (k, ErrorGroup (eg_tool g) (eg_error g) (eg_occurrences g + 1)
              (eg_timestamps g @ [get entry ''timestamp''])) # groups
      else (k, g) # group_add error_key entry groups)"

fun error_groups ::
  "(json \<Rightarrow> string) \<Rightarrow> pydict list \<Rightarrow> (string \<times> error_group) list
     \<Rightarrow> py_error + (string \<times> error_group) list" where
  "error_groups repr [] groups = Inr groups"
| "error_groups repr (entry # logs) groups =
     (if \<not> truthy (get_or entry ''success'' (JBool True)) then
        (case py_slice 50 (get_or entry ''error'' (JStr ''unknown'')) of
           Inl err \<Rightarrow> Inl err
         | Inr e50 \<Rightarrow>
             error_groups repr logs
               (group_add (py_format repr (get entry ''tool_name'') @ '':'' @ py_format repr e50)
                  entry groups))
      else error_groups repr logs groups)"

text \<open>
  \<open>error_pattern tool error occurrences timestamps recommendation\<close>. The recommendation
  slices the stored \<open>error\<close>, which is \<open>None\<close> when the entry had no \<open>error\<close> key.
\<close>

datatype error_pattern = error_pattern json json nat "json list" string

fun error_records ::
  "(json \<Rightarrow> string) \<Rightarrow> (string \<times> error_group) list \<Rightarrow> py_error + error_pattern list" where
  "error_records repr [] = Inr []"
| "error_records repr ((k, g) # groups) =
     (if eg_occurrences g \<ge> 2 then
        (case py_slice 100 (eg_error g) of
           Inl err \<Rightarrow> Inl err
         | Inr e100 \<Rightarrow>
             (case error_records repr groups of
                Inl err \<Rightarrow> Inl err
              | Inr rest \<Rightarrow>
                  Inr (error_pattern (eg_tool g) (eg_error g) (eg_occurrences g) (eg_timestamps g)
                         (''Add validation to prevent '' @ [CHR 0x27] @ py_format repr e100
                            @ [CHR 0x27]) # rest)))
      else error_records repr groups)"

definition find_error_patterns ::
  "(json \<Rightarrow> string) \<Rightarrow> pydict list \<Rightarrow> py_error + error_pattern list" where
  "find_error_patterns repr logs =
     (case error_groups repr logs [] of
        Inl err \<Rightarrow> Inl err
      | Inr groups \<Rightarrow> error_records repr groups)"

subsection \<open>\<open>calculate_session_metrics\<close>\<close>

text \<open>
  The order \<open>>\<close> of Python values, as \<open>max\<close> uses it: numbers and booleans by value,
  strings and lists lexicographically, \<open>TypeError\<close> for any other pair.
\<close>

fun num_of :: "json \<Rightarrow> rat option" where
  "num_of (JBool b) = Some (if b then 1 else 0)"
| "num_of (JInt i) = Some (of_int i)"
| "num_of (JFloat r) = Some r"
| "num_of v = None"

fun str_gt :: "string \<Rightarrow> string \<Rightarrow> bool" where
  "str_gt [] bs = False"
| "str_gt (a # as) [] = True"
| "str_gt (a # as) (b # bs) =
     ((of_char a :: nat) > of_char b \<or> (a = b \<and> str_gt as bs))"

fun py_gt :: "json \<Rightarrow> json \<Rightarrow> py_error + bool"
  and list_gt :: "json list \<Rightarrow> json list \<Rightarrow> py_error + bool" where
  "py_gt (JArr xs) (JArr ys) = list_gt xs ys"
| "py_gt (JStr a) (JStr b) = Inr (str_gt a b)"
| "py_gt a b =
     (case (num_of a, num_of b) of
        (Some x, Some y) \<Rightarrow> Inr (x > y)
      | _ \<Rightarrow> Inl TypeError)"
| "list_gt [] ys = Inr False"
| "list_gt (x # xs) [] = Inr True"
| "list_gt (x # xs) (y # ys) = (if py_eq x y then list_gt xs ys else py_gt x y)"

text \<open>
  \<open>max(tool_logs, key=...)\<close>: the first entry is the candidate, and a later entry replaces
  it when its key is greater.
\<close>

fun max_by :: "(pydict \<Rightarrow> json) \<Rightarrow> pydict \<Rightarrow> pydict list \<Rightarrow> py_error + pydict" where
  "max_by key m [] = Inr m"
| "max_by key m (x # xs) =
     (case py_gt (key x) (key m) of
        Inl err \<Rightarrow> Inl err
      | Inr is_greater \<Rightarrow> max_by key (if is_greater then x else m) xs)"

record session_metrics =
  total_tools_used :: nat
  unique_tools :: nat
  error_rate :: rat
  total_execution_time :: rat
  average_execution_time :: rat
  longest_operation :: "(json \<times> json) option"

definition calculate_session_metrics :: "pydict list \<Rightarrow> py_error + session_metrics" where
  "calculate_session_metrics logs =
     (let tool_logs = filter tool_bearing logs;
          names = map (\<lambda>entry. get entry ''tool_name'') tool_logs
      in if list_ex (\<lambda>v. \<not> hashable v) names then Inl TypeError
         else
           let m = \<lparr>total_tools_used = length tool_logs,
                    unique_tools = length (remdups (map norm names)),
                    error_rate = 0, total_execution_time = 0, average_execution_time = 0,
                    longest_operation = None\<rparr>
           in if tool_logs = [] then Inr m
              else
                let error_count =
                      length (filter (\<lambda>entry. \<not> truthy (get_or entry ''success'' (JBool True))) tool_logs);
                    m1 = m\<lparr>error_rate := of_nat error_count / of_nat (length tool_logs)\<rparr>;
                    execution_times =
                      map (\<lambda>entry. get_or entry ''execution_time'' (JInt 0))
                        (filter (\<lambda>entry. truthy (get entry ''execution_time'')) tool_logs)
                in if execution_times = [] then Inr m1
                   else
                     (case py_sum execution_times of
                        Inl err \<Rightarrow> Inl err
                      | Inr total_time \<Rightarrow>
                          (case max_by (\<lambda>entry. get_or entry ''execution_time'' (JInt 0))
                                  (hd tool_logs) (tl tool_logs) of
                             Inl err \<Rightarrow> Inl err
                           | Inr max_time_log \<Rightarrow>
                               Inr (m1\<lparr>total_execution_time := total_time,
                                       average_execution_time :=
                                         total_time / of_nat (length execution_times),
                                       longest_operation :=
                                         Some (get max_time_log ''tool_name'',
                                               get_or max_time_log ''execution_time'' (JInt 0))\<rparr>))))"

subsection \<open>\<open>analyze_session\<close>\<close>

text \<open>
  The \<open>analysis\<close> dictionary that \<open>analyze_session\<close> builds from the session log. Its values
  are evaluated in the order written, so the first exception wins.
\<close>

record session_analysis =
  analysis_session_id :: json
  analysis_timestamp :: string
  total_events :: nat
  patterns :: "pattern list"
  tool_sequences :: "workflow list"
  error_sequences :: "error_pattern list"
  analysis_metrics :: session_metrics

definition build_analysis ::
  "(json \<Rightarrow> string) \<Rightarrow> (json list \<Rightarrow> string) \<Rightarrow> string \<Rightarrow> json \<Rightarrow> pydict list
     \<Rightarrow> py_error + session_analysis" where
  "build_analysis repr digest now sid session_logs =
     (case detect_patterns repr session_logs of
        Inl err \<Rightarrow> Inl err
      | Inr ps \<Rightarrow>
          (case find_error_patterns repr session_logs of
             Inl err \<Rightarrow> Inl err
           | Inr es \<Rightarrow>
               (case calculate_session_metrics session_logs of
                  Inl err \<Rightarrow> Inl err
                | Inr ms \<Rightarrow>
                    Inr \<lparr>analysis_session_id = sid, analysis_timestamp = now,
                         total_events = length session_logs, patterns = ps,
                         tool_sequences = find_tool_sequences digest session_logs,
                         error_sequences = es, analysis_metrics = ms\<rparr>)))"

text \<open>
  The content of a report: everything but the time it was made at.
\<close>

definition report_content ::
  "session_analysis \<Rightarrow> json \<times> nat \<times> pattern list \<times> workflow list \<times> error_pattern list \<times> session_metrics" where
  "report_content a =
     (analysis_session_id a, total_events a, patterns a, tool_sequences a, error_sequences a,
      analysis_metrics a)"

text \<open>
  \<open>save_for_batch_processing\<close> appends the analysis to the pending improvements and keeps
  the last 100. \<open>analyze_session\<close> gets the session log that \<open>load_session_logs\<close> read from the
  log files, the clock reading and the pending improvements; it returns the new pending
  improvements and its result dictionary, one constructor for each of its four shapes.
\<close>

definition save_for_batch_processing :: "session_analysis \<Rightarrow> session_analysis list \<Rightarrow> session_analysis list" where
  "save_for_batch_processing a existing_improvements =
     (let improvements = existing_improvements @ [a]
      in if length improvements > 100 then last_n 100 improvements else improvements)"

datatype session_result =
    no_session_id
  | no_logs_found json
  | saved_for_improvement json nat nat nat
  | no_significant_patterns json

definition analyze_session ::
  "(json \<Rightarrow> string) \<Rightarrow> (json list \<Rightarrow> string) \<Rightarrow> string \<Rightarrow> pydict list \<Rightarrow> session_analysis list
     \<Rightarrow> pydict \<Rightarrow> session_analysis list \<times> (py_error + session_result)" where
  "analyze_session repr digest now session_logs pending event =
     (let sid = get event ''session_id''
      in if \<not> truthy sid then (pending, Inr no_session_id)
         else if session_logs = [] then (pending, Inr (no_logs_found sid))
         else
           (case build_analysis repr digest now sid session_logs of
              Inl err \<Rightarrow> (pending, Inl err)
            | Inr a \<Rightarrow>
                if patterns a \<noteq> [] \<or> error_sequences a \<noteq> [] then
                  (save_for_batch_processing a pending,
                   Inr (saved_for_improvement sid (length (patterns a))
                          (length (tool_sequences a)) (length (error_sequences a))))
                else (pending, Inr (no_significant_patterns sid))))"

subsection \<open>Example session entries\<close>

text \<open>
  Stand-ins for \<open>str()\<close> and for the digest, and a log entry of a tool, for the examples.
\<close>

definition no_repr :: "json \<Rightarrow> string" where
  "no_repr v = []"

definition no_digest :: "json list \<Rightarrow> string" where
  "no_digest tools = []"

definition tool_log :: "string \<Rightarrow> pydict" where
  "tool_log nm = fmap_of_list [(''tool_name'', JStr nm)]"

text \<open>A log entry of a tool with its outcome.\<close>

definition outcome_log :: "string \<Rightarrow> bool \<Rightarrow> pydict" where
  "outcome_log nm ok = fmap_of_list [(''tool_name'', JStr nm), (''success'', JBool ok)]"

text \<open>A log entry without a tool name: a submitted prompt.\<close>

definition prompt_log :: pydict where
  "prompt_log = fmap_of_list [(''log_type'', JStr ''user_prompt_submit'')]"

section \<open>Properties of the similarity scorer\<close>

lemma similarity_score_jaccard: "similarity_score a b = jaccard (tokens a) (tokens b)"
  by (auto simp: similarity_score_def jaccard_def tokens_def Let_def)

lemma jaccard_commute: "jaccard A B = jaccard B A"
  by (simp add: jaccard_def Int_commute Un_commute disj_commute)

lemma jaccard_range: "finite A \<Longrightarrow> finite B \<Longrightarrow> 0 \<le> jaccard A B \<and> jaccard A B \<le> 1"
proof -
  assume fin: "finite A" "finite B"
  have "card (A \<inter> B) \<le> card (A \<union> B)"
    using fin by (intro card_mono) auto
  then have "(of_nat (card (A \<inter> B)) :: rat) \<le> of_nat (card (A \<union> B))"
    by simp
  moreover have "A \<noteq> {} \<Longrightarrow> 0 < card (A \<union> B)"
    using fin by (simp add: card_gt_0_iff)
  ultimately show ?thesis
    by (auto simp: jaccard_def divide_le_eq_1)
qed

lemma jaccard_self: "finite A \<Longrightarrow> A \<noteq> {} \<Longrightarrow> jaccard A A = 1"
  by (simp add: jaccard_def card_gt_0_iff)

lemma finite_tokens: "finite (tokens a)"
  by (simp add: tokens_def)

text \<open>
  Claim C9. The similarity score is the Jaccard index \<open>|A \<inter> B| / |A \<union> B|\<close> of the
  case-folded, whitespace-split token sets of the two texts; it is symmetric, lies between
  0 and 1, is 0 when either token set is empty, and is 1 for a text compared with itself
  when its token set is not empty.
\<close>

theorem similarity_score_properties:
  "similarity_score a b = jaccard (tokens a) (tokens b)
   \<and> similarity_score a b = similarity_score b a
   \<and> 0 \<le> similarity_score a b \<and> similarity_score a b \<le> 1
   \<and> (tokens a = {} \<or> tokens b = {} \<longrightarrow> similarity_score a b = 0)
   \<and> (tokens a \<noteq> {} \<longrightarrow> similarity_score a a = 1)"
proof -
  have "similarity_score a b = similarity_score b a"
    by (simp add: similarity_score_jaccard jaccard_commute)
  moreover have "0 \<le> similarity_score a b \<and> similarity_score a b \<le> 1"
    by (simp add: similarity_score_jaccard jaccard_range finite_tokens)
  moreover have "tokens a = {} \<or> tokens b = {} \<longrightarrow> similarity_score a b = 0"
    by (auto simp: similarity_score_jaccard jaccard_def)
  moreover have "tokens a \<noteq> {} \<longrightarrow> similarity_score a a = 1"
    by (simp add: similarity_score_jaccard jaccard_self finite_tokens)
  ultimately show ?thesis
    by (simp add: similarity_score_jaccard)
qed

theorem similarity_score_properties_witness:
  "tokens ''Timeout after 30s'' = {''timeout'', ''after'', ''30s''}
   \<and> similarity_score ''Timeout after 30s'' ''Timeout after 30s'' = 1
   \<and> tokens [] = {}
   \<and> similarity_score [] ''x'' = 0"
proof -
  have t: "tokens ''Timeout after 30s'' = {''timeout'', ''after'', ''30s''}"
    by code_simp
  have e: "tokens [] = {}"
    by (simp add: tokens_def split_def lower_def)
  from t have ne: "tokens ''Timeout after 30s'' \<noteq> {}"
    by simp
  show ?thesis
    using similarity_score_properties [of "''Timeout after 30s''" "''Timeout after 30s''"]
      similarity_score_properties [of "[]" "''x''"] t e ne
    by simp
qed

section \<open>How the detectors change the state\<close>

lemma length_last_n: "length (last_n n xs) = min n (length xs)"
  by (simp add: last_n_def)

lemma last_n_suffix: "\<exists>older. xs = older @ last_n n xs"
  by (metis append_take_drop_id last_n_def)

lemma perf_result:
  assumes "event_type e = ''tool_use''" and "metrics e \<noteq> fmempty"
    and "get_or (data e) ''tool_name'' (JStr ''unknown'') = tool" and "hashable tool"
  shows "detect_performance_issues s e =
     (let t = metric_or (metrics e) ''execution_time'' 0;
          s' = s\<lparr>command_timings := (command_timings s)(norm tool := command_timings s (norm tool) @ [t])\<rparr>;
          w = recent_timings s' tool
      in (s', Inr (if length w > 5 then
                     (if t > median w * 2 then
                        [slow_tool_execution tool t (median w) (if t > median w * 3 then high else medium)]
                      else [])
                   else [])))"
  using assms by (simp add: detect_performance_issues_def Let_def)

lemma perf_state:
  assumes "detect_performance_issues s e = (s', r)"
  shows "(\<exists>suf. length suf \<le> 1 \<and> command_timings s' k = command_timings s k @ suf)
     \<and> agent_success_rates s' = agent_success_rates s
     \<and> recent_events s' = recent_events s"
  using assms
  by (auto simp: detect_performance_issues_def Let_def split: if_splits)

lemma perf_window_irrelevant:
  "command_timings (fst (detect_performance_issues (s\<lparr>recent_events := w\<rparr>) e))
     = command_timings (fst (detect_performance_issues s e))"
  by (simp add: detect_performance_issues_def Let_def recent_timings_def)

lemma succ_state:
  assumes "detect_success_indicators s e = (s', r)"
  shows "(\<exists>suf. length suf \<le> 1 \<and> agent_success_rates s' k = agent_success_rates s k @ suf)
     \<and> command_timings s' = command_timings s
     \<and> recent_events s' = recent_events s"
  using assms
  by (auto simp: detect_success_indicators_def Let_def split: if_splits)

lemma analyze_event_cases:
  assumes "analyze_event clf s e = (s', r)"
  obtains s1 r1 s2 r2 where
    "detect_performance_issues (s\<lparr>recent_events := deque_append 1000 (recent_events s) e\<rparr>) e = (s1, r1)"
    "detect_success_indicators s1 e = (s2, r2)"
    "s' = s1 \<or> s' = s2"
proof -
  define s0 where "s0 = s\<lparr>recent_events := deque_append 1000 (recent_events s) e\<rparr>"
  obtain s1 r1 where p: "detect_performance_issues s0 e = (s1, r1)"
    by (cases "detect_performance_issues s0 e")
  obtain s2 r2 where q: "detect_success_indicators s1 e = (s2, r2)"
    by (cases "detect_success_indicators s1 e")
  have "s' = s1 \<or> s' = s2"
    using assms p q
    by (auto simp: analyze_event_def Let_def s0_def split: sum.splits)
  with p q that show thesis
    by (simp add: s0_def)
qed

lemma analyze_event_state:
  assumes "analyze_event clf s e = (s', r)"
  shows "(\<exists>suf. length suf \<le> 1 \<and> command_timings s' k = command_timings s k @ suf)
     \<and> (\<exists>suf. length suf \<le> 1 \<and> agent_success_rates s' j = agent_success_rates s j @ suf)
     \<and> recent_events s' = deque_append 1000 (recent_events s) e"
proof -
  from assms obtain s1 r1 s2 r2 where
    p: "detect_performance_issues (s\<lparr>recent_events := deque_append 1000 (recent_events s) e\<rparr>) e = (s1, r1)"
    and q: "detect_success_indicators s1 e = (s2, r2)" and s': "s' = s1 \<or> s' = s2"
    by (rule analyze_event_cases)
  note P = perf_state [OF p] and Q = succ_state [OF q]
  show ?thesis
  proof (cases "s' = s1")
    case True
    then show ?thesis using P [of k] by auto
  next
    case False
    with s' have "s' = s2" by simp
    then show ?thesis using P [of k] Q [of j] by auto
  qed
qed

lemma analyze_event_timings:
  assumes "analyze_event clf s e = (s', r)"
  shows "command_timings s' = command_timings (fst (detect_performance_issues s e))"
proof -
  from assms obtain s1 r1 s2 r2 where
    p: "detect_performance_issues (s\<lparr>recent_events := deque_append 1000 (recent_events s) e\<rparr>) e = (s1, r1)"
    and q: "detect_success_indicators s1 e = (s2, r2)" and s': "s' = s1 \<or> s' = s2"
    by (rule analyze_event_cases)
  have "command_timings s' = command_timings s1"
    using s' succ_state [OF q] by auto
  also have "\<dots> = command_timings (fst (detect_performance_issues s e))"
    using perf_window_irrelevant [where s = s and w = "deque_append 1000 (recent_events s) e" and e = e] p by simp
  finally show ?thesis .
qed

lemma analyze_events_state:
  assumes "analyze_events clf s es ps = (s', r)"
  shows "(\<exists>suf. length suf \<le> length es \<and> command_timings s' k = command_timings s k @ suf)
     \<and> (\<exists>suf. length suf \<le> length es \<and> agent_success_rates s' j = agent_success_rates s j @ suf)"
  using assms
proof (induction es arbitrary: s ps)
  case Nil
  then show ?case by simp
next
  case (Cons e es)
  obtain s1 r1 where a: "analyze_event clf s e = (s1, r1)"
    by (cases "analyze_event clf s e")
  note A = analyze_event_state [OF a, of k j]
  show ?case
  proof (cases r1)
    case (Inl err)
    with Cons.prems a have "s' = s1" by simp
    with A show ?thesis by (auto intro: le_SucI)
  next
    case (Inr an)
    with Cons.prems a obtain ps' where "analyze_events clf s1 es ps' = (s', r)"
      by (auto split: if_splits)
    from Cons.IH [OF this] A show ?thesis
      by (auto simp: le_Suc_eq)
  qed
qed

lemma analyze_event_timing:
  assumes "event_type e = ''tool_use''" and "metrics e \<noteq> fmempty"
    and "get_or (data e) ''tool_name'' (JStr ''unknown'') = tool" and "hashable tool"
    and "\<not> truthy (get (data e) ''error'')"
  shows "\<exists>s' a. analyze_event clf s e = (s', Inr a)
     \<and> command_timings s' (norm tool)
         = command_timings s (norm tool) @ [metric_or (metrics e) ''execution_time'' 0]
     \<and> agent_success_rates s' = agent_success_rates s"
proof -
  have e: "detect_error_patterns s1 e = Inr []" for s1
    using assms(5) by (simp add: detect_error_patterns_def)
  have a: "detect_success_indicators s1 e = (s1, Inr [])" for s1
    using assms(1) by (simp add: detect_success_indicators_def)
  show ?thesis
    unfolding analyze_event_def
    by (simp add: perf_result [OF assms(1-4)] e a Let_def)
qed

lemma run_timing_events:
  assumes "\<forall>e\<in>set es. event_type e = ''tool_use'' \<and> metrics e \<noteq> fmempty
             \<and> get_or (data e) ''tool_name'' (JStr ''unknown'') = tool
             \<and> \<not> truthy (get (data e) ''error'')"
    and "hashable tool"
  shows "\<exists>s' ps'. analyze_events clf s es ps = (s', Inr ps')
     \<and> command_timings s' (norm tool)
         = command_timings s (norm tool) @ map (\<lambda>e. metric_or (metrics e) ''execution_time'' 0) es"
  using assms(1)
proof (induction es arbitrary: s ps)
  case Nil
  then show ?case by simp
next
  case (Cons e es)
  from Cons.prems have e: "event_type e = ''tool_use''" "metrics e \<noteq> fmempty"
    "get_or (data e) ''tool_name'' (JStr ''unknown'') = tool" "\<not> truthy (get (data e) ''error'')"
    by simp_all
  from analyze_event_timing [OF e(1-3) assms(2) e(4), of clf s]
  obtain s1 a where s1: "analyze_event clf s e = (s1, Inr a)"
    "command_timings s1 (norm tool)
       = command_timings s (norm tool) @ [metric_or (metrics e) ''execution_time'' 0]"
    by blast
  from Cons.prems have "\<forall>e\<in>set es. event_type e = ''tool_use'' \<and> metrics e \<noteq> fmempty
             \<and> get_or (data e) ''tool_name'' (JStr ''unknown'') = tool
             \<and> \<not> truthy (get (data e) ''error'')"
    by simp
  from Cons.IH [OF this, of s1] s1 show ?case
    by simp
qed

lemma metrics_event_facts:
  "event_type (metrics_event nm ms) = ''tool_use''"
  "get_or (data (metrics_event nm ms)) ''tool_name'' (JStr ''unknown'') = JStr nm"
  "\<not> truthy (get (data (metrics_event nm ms)) ''error'')"
  "metric_or (metrics (metrics_event nm ms)) k d = (case map_of ms k of None \<Rightarrow> d | Some v \<Rightarrow> v)"
  by (simp_all add: metrics_event_def get_or_def get_def metric_or_def fmlookup_of_list)

lemma metrics_event_nonempty: "ms \<noteq> [] \<Longrightarrow> metrics (metrics_event nm ms) \<noteq> fmempty"
proof -
  assume "ms \<noteq> []"
  then obtain k v rest where ms: "ms = (k, v) # rest"
    by (cases ms) auto
  have "fmlookup (fmap_of_list ms) k \<noteq> None"
    by (simp add: ms)
  then have "fmap_of_list ms \<noteq> fmempty"
    by auto
  then show ?thesis
    by (simp add: metrics_event_def)
qed

lemma run_metrics_events:
  assumes "\<forall>ms\<in>set mss. ms \<noteq> []"
  shows "\<exists>s' ps'. analyze_events clf s (map (metrics_event nm) mss) ps = (s', Inr ps')
     \<and> command_timings s' (JStr nm)
         = command_timings s (JStr nm)
             @ map (\<lambda>ms. case map_of ms ''execution_time'' of None \<Rightarrow> 0 | Some v \<Rightarrow> v) mss"
proof -
  have "\<forall>e\<in>set (map (metrics_event nm) mss). event_type e = ''tool_use'' \<and> metrics e \<noteq> fmempty
             \<and> get_or (data e) ''tool_name'' (JStr ''unknown'') = JStr nm
             \<and> \<not> truthy (get (data e) ''error'')"
    using assms by (auto simp: metrics_event_facts metrics_event_nonempty)
  from run_timing_events [OF this, of clf s ps]
  show ?thesis
    by (simp add: metrics_event_facts comp_def)
qed

lemma run_tool_events:
  "\<exists>s' ps'. analyze_events clf s (map (tool_event nm) ts) ps = (s', Inr ps')
     \<and> command_timings s' (JStr nm) = command_timings s (JStr nm) @ ts"
proof -
  have m: "map (tool_event nm) ts = map (metrics_event nm) (map (\<lambda>t. [(''execution_time'', t)]) ts)"
    by (simp add: tool_event_def comp_def)
  show ?thesis
    unfolding m using run_metrics_events [of "map (\<lambda>t. [(''execution_time'', t)]) ts" clf s nm ps]
    by (auto simp: comp_def)
qed

lemma timings_after_tool_events:
  "command_timings (fst (analyze_log_file clf init (map (tool_event nm) ts))) (JStr nm) = ts"
  using run_tool_events [of clf init nm ts "[]"]
  by (auto simp: analyze_log_file_def init_def)

section \<open>The performance detector\<close>



section \<open>The success detector\<close>

lemma py_sum_flags:
  assumes "\<forall>v\<in>set vs. \<exists>b. v = JBool b"
  shows "py_sum vs = Inr (of_nat (length (filter (\<lambda>v. v = JBool True) vs)))"
  using assms
proof (induction vs)
  case Nil
  then show ?case by simp
next
  case (Cons v vs)
  then obtain b where "v = JBool b" by auto
  with Cons show ?case by (cases b) simp_all
qed

lemma py_sum_flag_mean:
  assumes "\<forall>v\<in>set vs. \<exists>b. v = JBool b"
  shows "py_sum vs = Inr (flag_mean vs * of_nat (length vs))"
  using py_sum_flags [OF assms] by (simp add: flag_mean_def)

lemma succ_result:
  assumes "event_type e = ''agent_complete''"
    and "get_or (data e) ''agent_name'' (JStr ''unknown'') = agent" and "hashable agent"
  shows "detect_success_indicators s e =
     (let flag = get_or (data e) ''success'' (JBool False);
          s' = s\<lparr>agent_success_rates :=
                   (agent_success_rates s)(norm agent := agent_success_rates s (norm agent) @ [flag])\<rparr>;
          recent = recent_successes s' agent
      in (s', if length recent \<ge> 5 then
                (case py_sum recent of
                   Inl err \<Rightarrow> Inl err
                 | Inr successes \<Rightarrow>
                     Inr (if successes / of_nat (length recent) > 8 / 10 then
                            [high_success_agent agent (successes / of_nat (length recent)) (length recent)]
                          else []))
              else Inr []))"
  using assms by (simp add: detect_success_indicators_def Let_def split: sum.splits)

lemma set_last_n: "set (last_n n xs) \<subseteq> set xs"
  by (simp add: last_n_def set_drop_subset)

lemma analyze_event_outcome:
  assumes "event_type e = ''agent_complete''"
    and "get_or (data e) ''agent_name'' (JStr ''unknown'') = agent" and "hashable agent"
    and "get_or (data e) ''success'' (JBool False) = JBool b"
    and "\<forall>v\<in>set (agent_success_rates s (norm agent)). \<exists>b. v = JBool b"
  shows "\<exists>s' a. analyze_event clf s e = (s', Inr a)
     \<and> agent_success_rates s' (norm agent) = agent_success_rates s (norm agent) @ [JBool b]
     \<and> command_timings s' = command_timings s"
proof -
  define s0 where "s0 = s\<lparr>recent_events := deque_append 1000 (recent_events s) e\<rparr>"
  have p: "detect_performance_issues s0 e = (s0, Inr [])"
    using assms(1) by (simp add: detect_performance_issues_def)
  have q: "detect_error_patterns s0 e = Inr []"
    using assms(1) by (simp add: detect_error_patterns_def)
  obtain s2 r2 where d: "detect_success_indicators s0 e = (s2, r2)"
    by (cases "detect_success_indicators s0 e")
  have h: "agent_success_rates s2 (norm agent) = agent_success_rates s (norm agent) @ [JBool b]"
    and c: "command_timings s2 = command_timings s"
    using d succ_result [OF assms(1-3), of s0] assms(4) by (auto simp: Let_def s0_def)
  have flags: "\<forall>v\<in>set (recent_successes s2 agent). \<exists>b. v = JBool b"
    using assms(5) h set_last_n [of 10 "agent_success_rates s2 (norm agent)"]
    by (auto simp: recent_successes_def)
  have "\<exists>fs. r2 = Inr fs"
    using d succ_result [OF assms(1-3), of s0] assms(4) py_sum_flags [OF flags] h
    by (auto simp: Let_def s0_def recent_successes_def)
  then obtain fs where "r2 = Inr fs" ..
  with p q d have "analyze_event clf s e = (s2, Inr \<lparr>performance_issues = [], error_patterns = [],
      success_indicators = fs, anomalies = detect_anomalies clf s2 e\<rparr>)"
    by (simp add: analyze_event_def s0_def [symmetric] Let_def)
  with h c show ?thesis by simp
qed

lemma run_outcome_events:
  assumes "\<forall>e\<in>set es. event_type e = ''agent_complete''
             \<and> get_or (data e) ''agent_name'' (JStr ''unknown'') = agent
             \<and> (\<exists>b. get_or (data e) ''success'' (JBool False) = JBool b)"
    and "hashable agent"
    and "\<forall>v\<in>set (agent_success_rates s (norm agent)). \<exists>b. v = JBool b"
  shows "\<exists>s' ps'. analyze_events clf s es ps = (s', Inr ps')
     \<and> agent_success_rates s' (norm agent)
         = agent_success_rates s (norm agent) @ map (\<lambda>e. get_or (data e) ''success'' (JBool False)) es"
  using assms(1,3)
proof (induction es arbitrary: s ps)
  case Nil
  then show ?case by simp
next
  case (Cons e es)
  from Cons.prems(1) obtain b where e: "event_type e = ''agent_complete''"
    "get_or (data e) ''agent_name'' (JStr ''unknown'') = agent"
    "get_or (data e) ''success'' (JBool False) = JBool b"
    by auto
  from analyze_event_outcome [OF e(1,2) assms(2) e(3) Cons.prems(2), of clf]
  obtain s1 a where s1: "analyze_event clf s e = (s1, Inr a)"
    "agent_success_rates s1 (norm agent) = agent_success_rates s (norm agent) @ [JBool b]"
    by blast
  have f: "\<forall>v\<in>set (agent_success_rates s1 (norm agent)). \<exists>b. v = JBool b"
    using Cons.prems(2) s1(2) by auto
  from Cons.prems(1) have "\<forall>e\<in>set es. event_type e = ''agent_complete''
             \<and> get_or (data e) ''agent_name'' (JStr ''unknown'') = agent
             \<and> (\<exists>b. get_or (data e) ''success'' (JBool False) = JBool b)"
    by simp
  from Cons.IH [OF this f] s1 e(3) show ?case
    by simp
qed

lemma agent_event_facts:
  "event_type (agent_event nm flag) = ''agent_complete''"
  "get_or (data (agent_event nm flag)) ''agent_name'' (JStr ''unknown'') = JStr nm"
  "get_or (data (agent_event nm flag)) ''success'' (JBool False) = flag"
  by (simp_all add: agent_event_def get_or_def fmlookup_of_list)

lemma flags_after_agent_events:
  "agent_success_rates (fst (analyze_log_file clf init (map (\<lambda>b. agent_event nm (JBool b)) bs)))
     (JStr nm) = map JBool bs"
proof -
  have "\<forall>e\<in>set (map (\<lambda>b. agent_event nm (JBool b)) bs). event_type e = ''agent_complete''
             \<and> get_or (data e) ''agent_name'' (JStr ''unknown'') = JStr nm
             \<and> (\<exists>b. get_or (data e) ''success'' (JBool False) = JBool b)"
    by (auto simp: agent_event_facts)
  from run_outcome_events [OF this, where clf = clf and s = init and ps = "[]"]
  show ?thesis
    by (auto simp: analyze_log_file_def init_def agent_event_facts comp_def)
qed

text \<open>
  Claim C5. For an \<open>agent_complete\<close> event the detector appends the success value to the
  history of the agent. While fewer than 5 values are recorded for the agent (the current
  one included) it returns no finding, whatever the values are. From 5 recorded values on,
  when the last 10 recorded values are booleans, it returns the success finding, carrying
  the rate and the sample size, exactly when the mean of the last 10 recorded flags exceeds
  0.8. (The finding's \<open>'type'\<close> is \<open>high_success_agent\<close> in the source.) The witness runs
  five successes in a row: the fifth event yields the finding with rate 1 and sample size
  5, and the fourth event of such a run yields nothing.
\<close>

theorem success_streak_rule:
  assumes "event_type e = ''agent_complete''"
    and "get_or (data e) ''agent_name'' (JStr ''unknown'') = agent" and "hashable agent"
    and "get_or (data e) ''success'' (JBool False) = flag"
    and "detect_success_indicators s e = (s', r)"
  shows "agent_success_rates s' (norm agent) = agent_success_rates s (norm agent) @ [flag]
     \<and> recent_successes s' agent = last_n 10 (agent_success_rates s (norm agent) @ [flag])
     \<and> (length (agent_success_rates s' (norm agent)) < 5 \<longrightarrow> r = Inr [])
     \<and> (length (agent_success_rates s' (norm agent)) \<ge> 5
          \<and> (\<forall>v\<in>set (recent_successes s' agent). \<exists>b. v = JBool b) \<longrightarrow>
          r = Inr (if flag_mean (recent_successes s' agent) > 8 / 10
                   then [high_success_agent agent (flag_mean (recent_successes s' agent))
                           (length (recent_successes s' agent))]
                   else []))"
proof -
  define S where "S = s\<lparr>agent_success_rates :=
                   (agent_success_rates s)(norm agent := agent_success_rates s (norm agent) @ [flag])\<rparr>"
  have "detect_success_indicators s e =
      (S, if length (recent_successes S agent) \<ge> 5 then
                (case py_sum (recent_successes S agent) of
                   Inl err \<Rightarrow> Inl err
                 | Inr successes \<Rightarrow>
                     Inr (if successes / of_nat (length (recent_successes S agent)) > 8 / 10 then
                            [high_success_agent agent
                               (successes / of_nat (length (recent_successes S agent)))
                               (length (recent_successes S agent))]
                          else []))
              else Inr [])"
    unfolding S_def using succ_result [OF assms(1-3), of s] assms(4) by (simp add: Let_def)
  with assms(5) have s': "s' = S"
    and r0: "r = (if length (recent_successes S agent) \<ge> 5 then
                (case py_sum (recent_successes S agent) of
                   Inl err \<Rightarrow> Inl err
                 | Inr successes \<Rightarrow>
                     Inr (if successes / of_nat (length (recent_successes S agent)) > 8 / 10 then
                            [high_success_agent agent
                               (successes / of_nat (length (recent_successes S agent)))
                               (length (recent_successes S agent))]
                          else []))
              else Inr [])"
    by auto
  note r = r0 [folded s']
  have h: "agent_success_rates s' (norm agent) = agent_success_rates s (norm agent) @ [flag]"
    by (simp add: s' S_def)
  have w: "recent_successes s' agent = last_n 10 (agent_success_rates s (norm agent) @ [flag])"
    by (simp add: recent_successes_def h)
  have len: "length (recent_successes s' agent) \<ge> 5 \<longleftrightarrow> length (agent_success_rates s' (norm agent)) \<ge> 5"
    by (auto simp: recent_successes_def length_last_n)
  have small: "length (agent_success_rates s' (norm agent)) < 5 \<Longrightarrow> r = Inr []"
    using r len by simp
  have big: "r = Inr (if flag_mean (recent_successes s' agent) > 8 / 10
                   then [high_success_agent agent (flag_mean (recent_successes s' agent))
                           (length (recent_successes s' agent))]
                   else [])"
    if l: "length (agent_success_rates s' (norm agent)) \<ge> 5"
      and f: "\<forall>v\<in>set (recent_successes s' agent). \<exists>b. v = JBool b"
  proof -
    from l len have "length (recent_successes s' agent) \<ge> 5" by simp
    then have pos: "of_nat (length (recent_successes s' agent)) \<noteq> (0::rat)" by auto
    show ?thesis
      using r l len py_sum_flag_mean [OF f] pos by simp
  qed
  show ?thesis
    using h w small big by blast
qed

theorem success_streak_rule_witness:
  "agent_success_rates
     (fst (analyze_log_file no_anomaly init (replicate 4 (agent_event ''reviewer'' (JBool True)))))
     (JStr ''reviewer'') = replicate 4 (JBool True)
   \<and> snd (detect_success_indicators
        (fst (analyze_log_file no_anomaly init (replicate 4 (agent_event ''reviewer'' (JBool True)))))
        (agent_event ''reviewer'' (JBool True)))
       = Inr [high_success_agent (JStr ''reviewer'') 1 5]
   \<and> snd (detect_success_indicators
        (fst (analyze_log_file no_anomaly init (replicate 3 (agent_event ''reviewer'' (JBool True)))))
        (agent_event ''reviewer'' (JBool True)))
       = Inr []"
proof -
  define e where "e = agent_event ''reviewer'' (JBool True)"
  define s where "s = fst (analyze_log_file no_anomaly init (replicate 4 e))"
  define u where "u = fst (analyze_log_file no_anomaly init (replicate 3 e))"
  have hs: "agent_success_rates s (JStr ''reviewer'') = replicate 4 (JBool True)"
    unfolding s_def e_def
    using flags_after_agent_events [of no_anomaly "''reviewer''" "replicate 4 True"]
    by simp
  have hu: "agent_success_rates u (JStr ''reviewer'') = replicate 3 (JBool True)"
    unfolding u_def e_def
    using flags_after_agent_events [of no_anomaly "''reviewer''" "replicate 3 True"]
    by simp
  have e1: "event_type e = ''agent_complete''"
    and e2: "get_or (data e) ''agent_name'' (JStr ''unknown'') = JStr ''reviewer''"
    and e3: "get_or (data e) ''success'' (JBool False) = JBool True"
    by (simp_all add: e_def agent_event_facts)
  have e4: "hashable (JStr ''reviewer'')"
    by simp
  have w: "last_n 10 (replicate 4 (JBool True) @ [JBool True]) = replicate 5 (JBool True)"
    by (simp add: last_n_def numeral_eq_Suc)
  have m: "flag_mean (replicate 5 (JBool True)) = 1"
    by (simp add: flag_mean_def)
  note R = success_streak_rule [OF e1 e2 e4 e3, of s "fst (detect_success_indicators s e)"
        "snd (detect_success_indicators s e)"]
  from R hs have h': "agent_success_rates (fst (detect_success_indicators s e)) (JStr ''reviewer'')
      = replicate 4 (JBool True) @ [JBool True]"
    by simp
  from R hs w have w': "recent_successes (fst (detect_success_indicators s e)) (JStr ''reviewer'')
      = replicate 5 (JBool True)"
    by simp
  have "snd (detect_success_indicators s e) = Inr [high_success_agent (JStr ''reviewer'') 1 5]"
    using R by (auto simp: h' w' m)
  moreover have "snd (detect_success_indicators u e) = Inr []"
    using success_streak_rule [OF e1 e2 e4 e3, of u "fst (detect_success_indicators u e)"
        "snd (detect_success_indicators u e)"] hu
    by simp
  ultimately show ?thesis
    using hs by (simp add: s_def u_def e_def)
qed

section \<open>The rolling histories\<close>

text \<open>
  Claim C2, as the source has it. The lists stored under a tool or an agent are never
  shortened: processing events only appends to them, one entry for each event of that key,
  so their length is not bounded. What is bounded is the slice a detector reads: the last
  20 stored timings and the last 10 stored success values, which are the most recent
  entries in arrival order.
\<close>

theorem histories_append_only:
  assumes "analyze_events clf s es ps = (s', r)"
  shows "(\<exists>suf. length suf \<le> length es \<and> command_timings s' k = command_timings s k @ suf)
     \<and> (\<exists>suf. length suf \<le> length es \<and> agent_success_rates s' j = agent_success_rates s j @ suf)
     \<and> length (recent_timings s' tool) = min 20 (length (command_timings s' (norm tool)))
     \<and> (\<exists>older. command_timings s' (norm tool) = older @ recent_timings s' tool)
     \<and> length (recent_successes s' agent) = min 10 (length (agent_success_rates s' (norm agent)))
     \<and> (\<exists>older. agent_success_rates s' (norm agent) = older @ recent_successes s' agent)"
  using analyze_events_state [OF assms, of k j] 
  by (simp add: recent_timings_def recent_successes_def length_last_n last_n_suffix)

theorem histories_append_only_witness:
  "command_timings (fst (analyze_log_file no_anomaly init (replicate 21 (tool_event ''Bash'' 1))))
     (JStr ''Bash'') = replicate 21 1
   \<and> length (recent_timings
        (fst (analyze_log_file no_anomaly init (replicate 21 (tool_event ''Bash'' 1))))
        (JStr ''Bash'')) = 20"
proof -
  define s where "s = fst (analyze_log_file no_anomaly init (replicate 21 (tool_event ''Bash'' 1)))"
  have run: "analyze_events no_anomaly init (replicate 21 (tool_event ''Bash'' 1)) []
      = (s, snd (analyze_log_file no_anomaly init (replicate 21 (tool_event ''Bash'' 1))))"
    by (simp add: s_def analyze_log_file_def)
  have hs: "command_timings s (JStr ''Bash'') = replicate 21 1"
    unfolding s_def using timings_after_tool_events [of no_anomaly "''Bash''" "replicate 21 1"]
    by simp
  have "length (recent_timings s (JStr ''Bash'')) = 20"
    using histories_append_only [OF run, of "JStr ''Bash''" JNull "JStr ''Bash''" JNull] hs
    by simp
  with hs show ?thesis
    by (simp add: s_def)
qed

text \<open>
  The bound of claim C2 fails for the stored lists: after 21 timed events of one tool the
  history holds 21 timings, the oldest one still first, and after 11 completions of one
  agent the history holds 11 flags.
\<close>

theorem history_bound_counterexample:
  "command_timings
     (fst (analyze_log_file no_anomaly init
        (tool_event ''Bash'' 7 # replicate 20 (tool_event ''Bash'' 1))))
     (JStr ''Bash'') = 7 # replicate 20 1
   \<and> \<not> length (command_timings
        (fst (analyze_log_file no_anomaly init
           (tool_event ''Bash'' 7 # replicate 20 (tool_event ''Bash'' 1))))
        (JStr ''Bash'')) \<le> 20
   \<and> \<not> length (agent_success_rates
        (fst (analyze_log_file no_anomaly init (replicate 11 (agent_event ''reviewer'' (JBool True)))))
        (JStr ''reviewer'')) \<le> 10"
proof -
  have t: "command_timings
     (fst (analyze_log_file no_anomaly init
        (tool_event ''Bash'' 7 # replicate 20 (tool_event ''Bash'' 1))))
     (JStr ''Bash'') = 7 # replicate 20 1"
    using timings_after_tool_events [of no_anomaly "''Bash''" "7 # replicate 20 1"]
    by simp
  have a: "agent_success_rates
        (fst (analyze_log_file no_anomaly init (replicate 11 (agent_event ''reviewer'' (JBool True)))))
        (JStr ''reviewer'') = replicate 11 (JBool True)"
    using flags_after_agent_events [of no_anomaly "''reviewer''" "replicate 11 True"]
    by simp
  show ?thesis
    unfolding t a by simp
qed

section \<open>Events without an execution time\<close>

lemma timings_after_metrics_events:
  assumes "\<forall>ms\<in>set mss. ms \<noteq> []"
  shows "command_timings (fst (analyze_log_file clf init (map (metrics_event nm) mss))) (JStr nm)
     = map (\<lambda>ms. case map_of ms ''execution_time'' of None \<Rightarrow> 0 | Some v \<Rightarrow> v) mss"
  using run_metrics_events [OF assms, where clf = clf and s = init and nm = nm and ps = "[]"]
  by (auto simp: analyze_log_file_def init_def)

lemma last_n_recent:
  "length later < n \<Longrightarrow> last_n n (h @ x # later) = last_n (n - Suc (length later)) h @ x # later"
  by (simp add: last_n_def)

lemma last_n_old:
  "length later \<ge> n \<Longrightarrow> last_n n (h @ x # later) = last_n n later"
  by (simp add: last_n_def Suc_diff_le)

text \<open>
  Claim C10, as the source has it. A \<open>tool_use\<close> event whose metrics are not empty but
  have no \<open>execution_time\<close> records the default 0 as the latest timing of its tool. The
  zero is in the slice the baseline median is computed from for this event and for the next
  19 timings recorded for the tool; once 20 later timings are recorded, the slice of the
  last 20 no longer holds it.
\<close>

theorem missing_execution_time_records_zero:
  assumes "event_type e = ''tool_use''" and "metrics e \<noteq> fmempty"
    and "fmlookup (metrics e) ''execution_time'' = None"
    and "get_or (data e) ''tool_name'' (JStr ''unknown'') = tool" and "hashable tool"
    and "analyze_event clf s e = (s1, r1)"
    and "analyze_events clf s1 es ps = (s2, r2)"
  shows "command_timings s1 (norm tool) = command_timings s (norm tool) @ [0]
     \<and> 0 \<in> set (recent_timings s1 tool)
     \<and> (\<exists>later. length later \<le> length es
           \<and> command_timings s2 (norm tool) = command_timings s (norm tool) @ 0 # later
           \<and> (length later < 20 \<longrightarrow>
                recent_timings s2 tool
                  = last_n (19 - length later) (command_timings s (norm tool)) @ 0 # later)
           \<and> (length later \<ge> 20 \<longrightarrow> recent_timings s2 tool = last_n 20 later))"
proof -
  have t: "metric_or (metrics e) ''execution_time'' 0 = 0"
    using assms(3) by (simp add: metric_or_def)
  have h1: "command_timings s1 (norm tool) = command_timings s (norm tool) @ [0]"
    using analyze_event_timings [OF assms(6)] perf_result [OF assms(1,2,4,5), of s] t
    by (simp add: Let_def)
  have r1: "0 \<in> set (recent_timings s1 tool)"
    using last_n_recent [of "[]" 20 "command_timings s (norm tool)" 0]
    by (simp add: recent_timings_def h1)
  from analyze_events_state [OF assms(7), of "norm tool"]
  obtain later where l: "length later \<le> length es"
    and h2: "command_timings s2 (norm tool) = command_timings s (norm tool) @ 0 # later"
    using h1 by auto
  have a: "length later < 20 \<longrightarrow>
      recent_timings s2 tool = last_n (19 - length later) (command_timings s (norm tool)) @ 0 # later"
    using last_n_recent [of later 20 "command_timings s (norm tool)" 0]
    by (simp add: recent_timings_def h2)
  have b: "length later \<ge> 20 \<longrightarrow> recent_timings s2 tool = last_n 20 later"
    using last_n_old [of 20 later "command_timings s (norm tool)" 0]
    by (simp add: recent_timings_def h2)
  from h1 r1 l h2 a b show ?thesis
    by blast
qed

theorem missing_execution_time_records_zero_witness:
  "command_timings (fst (analyze_event no_anomaly init (metrics_event ''Bash'' [(''memory_mb'', 512)])))
     (JStr ''Bash'') = [0]
   \<and> recent_timings
       (fst (analyze_events no_anomaly
          (fst (analyze_event no_anomaly init (metrics_event ''Bash'' [(''memory_mb'', 512)])))
          (replicate 5 (tool_event ''Bash'' 2)) []))
       (JStr ''Bash'') = 0 # replicate 5 2"
proof -
  define e where "e = metrics_event ''Bash'' [(''memory_mb'', 512)]"
  define s1 where "s1 = fst (analyze_event no_anomaly init e)"
  define es where "es = replicate 5 (tool_event ''Bash'' 2)"
  define s2 where "s2 = fst (analyze_events no_anomaly s1 es [])"
  have e1: "event_type e = ''tool_use''"
    and e2: "metrics e \<noteq> fmempty"
    and e3: "fmlookup (metrics e) ''execution_time'' = None"
    and e4: "get_or (data e) ''tool_name'' (JStr ''unknown'') = JStr ''Bash''"
    by (simp_all add: e_def metrics_event_facts metrics_event_nonempty)
      (simp add: metrics_event_def fmlookup_of_list)
  have e5: "hashable (JStr ''Bash'')"
    by simp
  have a1: "analyze_event no_anomaly init e = (s1, snd (analyze_event no_anomaly init e))"
    by (simp add: s1_def)
  have a2: "analyze_events no_anomaly s1 es [] = (s2, snd (analyze_events no_anomaly s1 es []))"
    by (simp add: s2_def)
  note R = missing_execution_time_records_zero [OF e1 e2 e3 e4 e5 a1 a2]
  from R have h1: "command_timings s1 (JStr ''Bash'') = [0]"
    by (simp add: init_def)
  have h2: "command_timings s2 (JStr ''Bash'') = 0 # replicate 5 2"
    using run_tool_events [of no_anomaly s1 "''Bash''" "replicate 5 2" "[]"] h1
    by (auto simp: s2_def es_def)
  from R obtain later where "command_timings s2 (JStr ''Bash'') = 0 # later"
    and "length later < 20 \<longrightarrow> recent_timings s2 (JStr ''Bash'') = 0 # later"
    by (auto simp: init_def last_n_def)
  with h2 have "recent_timings s2 (JStr ''Bash'') = 0 # replicate 5 2"
    by simp
  with h1 show ?thesis
    by (simp add: s1_def s2_def es_def e_def)
qed

text \<open>
  The zero does not take part in every later baseline: after a metrics-only event, ten
  timings of 1 and ten timings of 3, the slice read by the detector is the twenty later
  timings, with median 2, while the stored history with the zero has median 1.
\<close>

theorem zero_leaves_window_counterexample:
  "command_timings
     (fst (analyze_log_file no_anomaly init
        (metrics_event ''Bash'' [(''memory_mb'', 512)]
           # replicate 10 (tool_event ''Bash'' 1) @ replicate 10 (tool_event ''Bash'' 3))))
     (JStr ''Bash'') = 0 # replicate 10 1 @ replicate 10 3
   \<and> recent_timings
     (fst (analyze_log_file no_anomaly init
        (metrics_event ''Bash'' [(''memory_mb'', 512)]
           # replicate 10 (tool_event ''Bash'' 1) @ replicate 10 (tool_event ''Bash'' 3))))
     (JStr ''Bash'') = replicate 10 1 @ replicate 10 3
   \<and> 0 \<notin> set (recent_timings
     (fst (analyze_log_file no_anomaly init
        (metrics_event ''Bash'' [(''memory_mb'', 512)]
           # replicate 10 (tool_event ''Bash'' 1) @ replicate 10 (tool_event ''Bash'' 3))))
     (JStr ''Bash''))
   \<and> median (recent_timings
     (fst (analyze_log_file no_anomaly init
        (metrics_event ''Bash'' [(''memory_mb'', 512)]
           # replicate 10 (tool_event ''Bash'' 1) @ replicate 10 (tool_event ''Bash'' 3))))
     (JStr ''Bash'')) = 2
   \<and> median (command_timings
     (fst (analyze_log_file no_anomaly init
        (metrics_event ''Bash'' [(''memory_mb'', 512)]
           # replicate 10 (tool_event ''Bash'' 1) @ replicate 10 (tool_event ''Bash'' 3))))
     (JStr ''Bash'')) = 1"
proof -
  define S where "S = fst (analyze_log_file no_anomaly init
        (metrics_event ''Bash'' [(''memory_mb'', 512)]
           # replicate 10 (tool_event ''Bash'' 1) @ replicate 10 (tool_event ''Bash'' 3)))"
  have l: "metrics_event ''Bash'' [(''memory_mb'', 512)]
           # replicate 10 (tool_event ''Bash'' 1) @ replicate 10 (tool_event ''Bash'' 3)
      = map (metrics_event ''Bash'')
          ([(''memory_mb'', 512)] # replicate 10 [(''execution_time'', 1)]
             @ replicate 10 [(''execution_time'', 3)])"
    by (simp add: tool_event_def)
  have h: "command_timings S (JStr ''Bash'') = 0 # replicate 10 1 @ replicate 10 3"
    unfolding S_def l
    by (subst timings_after_metrics_events) simp_all
  have w: "recent_timings S (JStr ''Bash'') = replicate 10 1 @ replicate 10 3"
    by (simp add: recent_timings_def h last_n_def)
  have m1: "median (replicate 10 1 @ replicate 10 3) = 2"
    by code_simp
  have m2: "median (0 # replicate 10 1 @ replicate 10 3) = 1"
    by code_simp
  show ?thesis
    using h w m1 m2 by (simp add: S_def)
qed

section \<open>The recurring-error detector\<close>

lemma similar_errors_filter:
  assumes "\<forall>x\<in>set xs. event_type x = ''tool_use'' \<and> truthy (get (data x) ''error'')
             \<longrightarrow> (\<exists>m. get (data x) ''error'' = JStr m)"
  shows "similar_errors xs (JStr msg)
     = Inr (filter (\<lambda>x. event_type x = ''tool_use''
              \<and> (\<exists>m. get (data x) ''error'' = JStr m \<and> m \<noteq> []
                    \<and> similarity_score m msg > 8 / 10)) xs)"
  using assms
proof (induction xs)
  case Nil
  then show ?case by simp
next
  case (Cons x xs)
  then have IH: "similar_errors xs (JStr msg)
     = Inr (filter (\<lambda>x. event_type x = ''tool_use''
              \<and> (\<exists>m. get (data x) ''error'' = JStr m \<and> m \<noteq> []
                    \<and> similarity_score m msg > 8 / 10)) xs)"
    by simp
  show ?case
  proof (cases "event_type x = ''tool_use'' \<and> truthy (get (data x) ''error'')")
    case True
    with Cons.prems obtain m where m: "get (data x) ''error'' = JStr m"
      by auto
    with True have "m \<noteq> []" by simp
    with True m IH show ?thesis by simp
  next
    case False
    then have "\<not> (event_type x = ''tool_use''
              \<and> (\<exists>m. get (data x) ''error'' = JStr m \<and> m \<noteq> []
                    \<and> similarity_score m msg > 8 / 10))"
      by auto
    with False IH show ?thesis by auto
  qed
qed

lemma set_deque_append: "set (deque_append n xs x) \<subseteq> insert x (set xs)"
  by (cases xs) (auto simp: deque_append_def)

lemma similarity_self:
  assumes "tokens msg \<noteq> {}"
  shows "similarity_score msg msg = 1"
  using assms by (simp add: similarity_score_jaccard jaccard_self finite_tokens)

lemma analyze_event_window:
  "recent_events (fst (analyze_event clf s e)) = deque_append 1000 (recent_events s) e"
  using analyze_event_state [of clf s e "fst (analyze_event clf s e)" "snd (analyze_event clf s e)"]
  by simp

lemma error_event_facts:
  "event_type (error_event nm err) = ''tool_use''"
  "get (data (error_event nm err)) ''error'' = err"
  "get_or (data (error_event nm err)) ''tool_name'' (JStr ''unknown'') = JStr nm"
  "metrics (error_event nm err) = fmempty"
  by (simp_all add: error_event_def get_def get_or_def fmlookup_of_list)

lemma similar_errors_poisoned:
  assumes "\<exists>x\<in>set xs. event_type x = ''tool_use'' \<and> truthy (get (data x) ''error'')
             \<and> (\<forall>m. get (data x) ''error'' \<noteq> JStr m)"
  shows "similar_errors xs v = Inl AttributeError"
  using assms
proof (induction xs)
  case Nil
  then show ?case by simp
next
  case (Cons x xs)
  have all: "call_similarity_score a b = Inl AttributeError \<or> (\<exists>sc. call_similarity_score a b = Inr sc)"
    for a b
    by (cases a; cases b) simp_all
  show ?case
  proof (cases "event_type x = ''tool_use'' \<and> truthy (get (data x) ''error'')")
    case False
    with Cons have "similar_errors xs v = Inl AttributeError"
      by auto
    with False show ?thesis by auto
  next
    case True
    show ?thesis
    proof (cases "\<forall>m. get (data x) ''error'' \<noteq> JStr m")
      case bad: True
      have "call_similarity_score (get (data x) ''error'') v = Inl AttributeError"
        using bad by (cases "get (data x) ''error''") simp_all
      with True show ?thesis by simp
    next
      case False
      with Cons have rest: "similar_errors xs v = Inl AttributeError"
        by auto
      from all [of "get (data x) ''error''" v] True rest show ?thesis
        by auto
    qed
  qed
qed

lemma perf_type_error:
  assumes "event_type e = ''tool_use''" and "metrics e \<noteq> fmempty"
    and "\<not> hashable (get_or (data e) ''tool_name'' (JStr ''unknown''))"
  shows "detect_performance_issues s e = (s, Inl TypeError)"
  using assms by (simp add: detect_performance_issues_def Let_def)

lemma perf_no_error_unless:
  assumes "metrics e = fmempty \<or> hashable (get_or (data e) ''tool_name'' (JStr ''unknown''))"
  shows "\<exists>p. snd (detect_performance_issues s e) = Inr p"
  using assms by (auto simp: detect_performance_issues_def Let_def)

lemma error_event_analysis:
  assumes "event_type e = ''tool_use''" and "truthy (get (data e) ''error'')"
    and "metrics e = fmempty \<or> hashable (get_or (data e) ''tool_name'' (JStr ''unknown''))"
  shows "\<exists>s1 perf. recent_events s1 = deque_append 1000 (recent_events s) e
     \<and> analyze_event clf s e =
        (s1, case similar_errors (deque_append 1000 (recent_events s) e) (get (data e) ''error'') of
               Inl err \<Rightarrow> Inl err
             | Inr similar \<Rightarrow>
                 Inr \<lparr>performance_issues = perf,
                      error_patterns =
                        (if length similar > 3 then
                           [recurring_error (get_or (data e) ''tool_name'' (JStr ''unknown''))
                              (get (data e) ''error'') (length similar) high]
                         else []),
                      success_indicators = [], anomalies = detect_anomalies clf s1 e\<rparr>)"
proof -
  define W where "W = deque_append 1000 (recent_events s) e"
  define s0 where "s0 = s\<lparr>recent_events := W\<rparr>"
  obtain s1 r1 where p: "detect_performance_issues s0 e = (s1, r1)"
    by (cases "detect_performance_issues s0 e")
  from perf_no_error_unless [OF assms(3), of s0] p obtain perf where r1: "r1 = Inr perf"
    by auto
  have w1: "recent_events s1 = W"
    using perf_state [OF p] by (simp add: s0_def)
  have d: "detect_success_indicators s1 e = (s1, Inr [])"
    using assms(1) by (simp add: detect_success_indicators_def)
  have q: "detect_error_patterns s1 e =
      (case similar_errors W (get (data e) ''error'') of
         Inl err \<Rightarrow> Inl err
       | Inr similar \<Rightarrow>
           Inr (if length similar > 3 then
                  [recurring_error (get_or (data e) ''tool_name'' (JStr ''unknown''))
                     (get (data e) ''error'') (length similar) high]
                else []))"
    using assms(1,2) by (simp add: detect_error_patterns_def w1 Let_def)
  have "analyze_event clf s e =
        (s1, case similar_errors W (get (data e) ''error'') of
               Inl err \<Rightarrow> Inl err
             | Inr similar \<Rightarrow>
                 Inr \<lparr>performance_issues = perf,
                      error_patterns =
                        (if length similar > 3 then
                           [recurring_error (get_or (data e) ''tool_name'' (JStr ''unknown''))
                              (get (data e) ''error'') (length similar) high]
                         else []),
                      success_indicators = [], anomalies = detect_anomalies clf s1 e\<rparr>)"
    using p r1 q d
    by (cases "similar_errors W (get (data e) ''error'')")
      (simp_all add: analyze_event_def Let_def s0_def [symmetric] W_def [symmetric])
  with w1 show ?thesis
    unfolding W_def by blast
qed

lemma unhashable_event_analysis:
  assumes "event_type e = ''tool_use''" and "metrics e \<noteq> fmempty"
    and "\<not> hashable (get_or (data e) ''tool_name'' (JStr ''unknown''))"
  shows "snd (analyze_event clf s e) = Inl TypeError"
  using perf_type_error [OF assms] by (simp add: analyze_event_def)

lemma similarity_no_token:
  assumes "tokens msg = {}"
  shows "similarity_score m msg = 0"
  using assms by (simp add: similarity_score_jaccard jaccard_def)


lemma in_deque_append: "x \<in> set (deque_append n xs x)"
  by (simp add: deque_append_def)

text \<open>
  Claim C4. \<open>analyze_event\<close> first stores the event in the window of the last 1000 events.
  For a \<open>tool_use\<close> event with a truthy error field, three cases cover every state:
  \<^item> the event has metrics and an unhashable tool name: the performance detector raises
    \<open>TypeError\<close> before the error detector runs;
  \<^item> otherwise, when some \<open>tool_use\<close> event of the window (the current one included) has a
    truthy error that is not a text, the similarity score raises \<open>AttributeError\<close>;
  \<^item> otherwise the error is a text and the detector counts the \<open>tool_use\<close> events of the
    window whose error text is non-empty and similar to the current one with a score above
    0.8, the current event included; when the count exceeds 3 it returns one
    \<open>recurring_error\<close> finding of severity \<open>high\<close> with the tool, the error message and the
    count, and nothing otherwise. When the error text has at least one word and the window
    holds at least 4 \<open>tool_use\<close> events with this very text, the finding is returned with a
    count of at least 4; when the error text has no word (white space only), nothing is
    returned however often it occurred.

  The witness processes four events with the text "connection timeout after 30s": the fourth
  call returns the finding with count 4.
\<close>

theorem recurring_error_rule:
  assumes "event_type e = ''tool_use''" and "truthy (get (data e) ''error'')"
    and "get_or (data e) ''tool_name'' (JStr ''unknown'') = tool"
    and "analyze_event clf s e = (s', r)"
  shows "recent_events s' = deque_append 1000 (recent_events s) e
     \<and> (metrics e \<noteq> fmempty \<and> \<not> hashable tool \<longrightarrow> r = Inl TypeError)
     \<and> ((metrics e = fmempty \<or> hashable tool)
          \<and> (\<exists>x\<in>set (recent_events s'). event_type x = ''tool_use'' \<and> truthy (get (data x) ''error'')
                \<and> (\<forall>m. get (data x) ''error'' \<noteq> JStr m))
          \<longrightarrow> r = Inl AttributeError)
     \<and> ((metrics e = fmempty \<or> hashable tool)
          \<and> (\<forall>x\<in>set (recent_events s'). event_type x = ''tool_use'' \<and> truthy (get (data x) ''error'')
                \<longrightarrow> (\<exists>m. get (data x) ''error'' = JStr m))
          \<longrightarrow> (\<exists>msg a. get (data e) ''error'' = JStr msg \<and> r = Inr a
                \<and> error_patterns a =
                    (if length (filter (\<lambda>x. event_type x = ''tool_use''
                           \<and> (\<exists>m. get (data x) ''error'' = JStr m \<and> m \<noteq> []
                                 \<and> similarity_score m msg > 8 / 10)) (recent_events s')) > 3
                     then [recurring_error tool (JStr msg)
                             (length (filter (\<lambda>x. event_type x = ''tool_use''
                                \<and> (\<exists>m. get (data x) ''error'' = JStr m \<and> m \<noteq> []
                                      \<and> similarity_score m msg > 8 / 10)) (recent_events s'))) high]
                     else [])
                \<and> (tokens msg \<noteq> {}
                     \<and> 4 \<le> length (filter (\<lambda>x. event_type x = ''tool_use''
                                       \<and> get (data x) ''error'' = JStr msg) (recent_events s'))
                     \<longrightarrow> (\<exists>n\<ge>4. error_patterns a = [recurring_error tool (JStr msg) n high]))
                \<and> (tokens msg = {} \<longrightarrow> error_patterns a = [])))"
proof -
  define W where "W = deque_append 1000 (recent_events s) e"
  define errv where "errv = get (data e) ''error''"
  have win: "recent_events s' = W"
    using analyze_event_state [OF assms(4)] by (simp add: W_def)
  have 1: "r = Inl TypeError" if "metrics e \<noteq> fmempty" and "\<not> hashable tool"
    using unhashable_event_analysis [OF assms(1) that(1), of clf s] that(2) assms(3,4) by simp
  have res: "\<exists>perf. r = (case similar_errors W errv of
               Inl err \<Rightarrow> Inl err
             | Inr similar \<Rightarrow>
                 Inr \<lparr>performance_issues = perf,
                      error_patterns =
                        (if length similar > 3 then
                           [recurring_error tool errv (length similar) high]
                         else []),
                      success_indicators = [], anomalies = detect_anomalies clf s' e\<rparr>)"
    if ok: "metrics e = fmempty \<or> hashable tool"
  proof -
    from ok assms(3)
    have "metrics e = fmempty \<or> hashable (get_or (data e) ''tool_name'' (JStr ''unknown''))"
      by simp
    from error_event_analysis [OF assms(1,2) this, of s clf] assms(3,4) show ?thesis
      unfolding W_def errv_def by auto
  qed
  have 2: "r = Inl AttributeError"
    if ok: "metrics e = fmempty \<or> hashable tool"
      and bad: "\<exists>x\<in>set W. event_type x = ''tool_use'' \<and> truthy (get (data x) ''error'')
                \<and> (\<forall>m. get (data x) ''error'' \<noteq> JStr m)"
    using res [OF ok] similar_errors_poisoned [OF bad, of errv] by auto
  have 3: "\<exists>msg a. errv = JStr msg \<and> r = Inr a
                \<and> error_patterns a =
                    (if length (filter (\<lambda>x. event_type x = ''tool_use''
                           \<and> (\<exists>m. get (data x) ''error'' = JStr m \<and> m \<noteq> []
                                 \<and> similarity_score m msg > 8 / 10)) W) > 3
                     then [recurring_error tool (JStr msg)
                             (length (filter (\<lambda>x. event_type x = ''tool_use''
                                \<and> (\<exists>m. get (data x) ''error'' = JStr m \<and> m \<noteq> []
                                      \<and> similarity_score m msg > 8 / 10)) W)) high]
                     else [])
                \<and> (tokens msg \<noteq> {}
                     \<and> 4 \<le> length (filter (\<lambda>x. event_type x = ''tool_use''
                                       \<and> get (data x) ''error'' = JStr msg) W)
                     \<longrightarrow> (\<exists>n\<ge>4. error_patterns a = [recurring_error tool (JStr msg) n high]))
                \<and> (tokens msg = {} \<longrightarrow> error_patterns a = [])"
    if ok: "metrics e = fmempty \<or> hashable tool"
      and typed: "\<forall>x\<in>set W. event_type x = ''tool_use'' \<and> truthy (get (data x) ''error'')
                \<longrightarrow> (\<exists>m. get (data x) ''error'' = JStr m)"
  proof -
    have "e \<in> set W"
      unfolding W_def by (rule in_deque_append)
    with typed assms(1,2) obtain msg where msg: "errv = JStr msg"
      unfolding errv_def by blast
    with assms(2) have ne: "msg \<noteq> []"
      by (simp add: errv_def)
    define P where "P = (\<lambda>x :: LogEvent. event_type x = ''tool_use''
                     \<and> (\<exists>m. get (data x) ''error'' = JStr m \<and> m \<noteq> []
                           \<and> similarity_score m msg > 8 / 10))"
    have sim: "similar_errors W (JStr msg) = Inr (filter P W)"
      unfolding P_def by (rule similar_errors_filter [OF typed])
    from res [OF ok, unfolded msg] obtain perf where r: "r = Inr \<lparr>performance_issues = perf,
                      error_patterns =
                        (if length (filter P W) > 3 then
                           [recurring_error tool (JStr msg) (length (filter P W)) high]
                         else []),
                      success_indicators = [], anomalies = detect_anomalies clf s' e\<rparr>"
      by (auto simp: sim)
    define a where "a = \<lparr>performance_issues = perf,
                      error_patterns =
                        (if length (filter P W) > 3 then
                           [recurring_error tool (JStr msg) (length (filter P W)) high]
                         else []),
                      success_indicators = [], anomalies = detect_anomalies clf s' e\<rparr>"
    have ra: "r = Inr a"
      by (simp add: r a_def)
    have ep: "error_patterns a = (if length (filter P W) > 3
        then [recurring_error tool (JStr msg) (length (filter P W)) high] else [])"
      by (simp add: a_def)
    have same: "length (filter (\<lambda>x. event_type x = ''tool_use''
                                 \<and> get (data x) ''error'' = JStr msg) W) \<le> length (filter P W)"
      if tk: "tokens msg \<noteq> {}"
    proof -
      have "\<forall>x. event_type x = ''tool_use'' \<and> get (data x) ''error'' = JStr msg \<longrightarrow> P x"
        using similarity_self [OF tk] ne by (simp add: P_def)
      then have "filter (\<lambda>x. event_type x = ''tool_use'' \<and> get (data x) ''error'' = JStr msg) W
          = filter (\<lambda>x. event_type x = ''tool_use'' \<and> get (data x) ''error'' = JStr msg) (filter P W)"
        by (auto intro: filter_cong)
      then have "length (filter (\<lambda>x. event_type x = ''tool_use'' \<and> get (data x) ''error'' = JStr msg) W)
          = length (filter (\<lambda>x. event_type x = ''tool_use'' \<and> get (data x) ''error'' = JStr msg)
              (filter P W))"
        by simp
      also have "\<dots> \<le> length (filter P W)"
        by (rule length_filter_le)
      finally show ?thesis .
    qed
    have part: "\<exists>n\<ge>4. error_patterns a = [recurring_error tool (JStr msg) n high]"
      if "tokens msg \<noteq> {}" and "4 \<le> length (filter (\<lambda>x. event_type x = ''tool_use''
                                 \<and> get (data x) ''error'' = JStr msg) W)"
    proof -
      from same [OF that(1)] that(2) have "4 \<le> length (filter P W)"
        by simp
      with ep show ?thesis
        by auto
    qed
    have none: "error_patterns a = []" if tk: "tokens msg = {}"
    proof -
      have "\<not> P x" for x
        using similarity_no_token [OF tk] by (simp add: P_def)
      then have "filter P W = []"
        by simp
      with ep show ?thesis by simp
    qed
    from msg ra ep part none show ?thesis
      unfolding P_def by blast
  qed
  show ?thesis
    unfolding win errv_def [symmetric]
  proof (intro conjI impI)
    show "W = deque_append 1000 (recent_events s) e"
      by (simp add: W_def)
    show "r = Inl TypeError" if "metrics e \<noteq> fmempty \<and> \<not> hashable tool"
      using that 1 by blast
    show "r = Inl AttributeError"
      if "(metrics e = fmempty \<or> hashable tool)
          \<and> (\<exists>x\<in>set W. event_type x = ''tool_use'' \<and> truthy (get (data x) ''error'')
                \<and> (\<forall>m. get (data x) ''error'' \<noteq> JStr m))"
      using that 2 by blast
    show "\<exists>msg a. errv = JStr msg \<and> r = Inr a
                \<and> error_patterns a =
                    (if length (filter (\<lambda>x. event_type x = ''tool_use''
                           \<and> (\<exists>m. get (data x) ''error'' = JStr m \<and> m \<noteq> []
                                 \<and> similarity_score m msg > 8 / 10)) W) > 3
                     then [recurring_error tool (JStr msg)
                             (length (filter (\<lambda>x. event_type x = ''tool_use''
                                \<and> (\<exists>m. get (data x) ''error'' = JStr m \<and> m \<noteq> []
                                      \<and> similarity_score m msg > 8 / 10)) W)) high]
                     else [])
                \<and> (tokens msg \<noteq> {}
                     \<and> 4 \<le> length (filter (\<lambda>x. event_type x = ''tool_use''
                                       \<and> get (data x) ''error'' = JStr msg) W)
                     \<longrightarrow> (\<exists>n\<ge>4. error_patterns a = [recurring_error tool (JStr msg) n high]))
                \<and> (tokens msg = {} \<longrightarrow> error_patterns a = [])"
      if "(metrics e = fmempty \<or> hashable tool)
          \<and> (\<forall>x\<in>set W. event_type x = ''tool_use'' \<and> truthy (get (data x) ''error'')
                \<longrightarrow> (\<exists>m. get (data x) ''error'' = JStr m))"
      using that 3 by blast
  qed
qed

theorem recurring_error_rule_witness:
  "recent_events (fst (analyze_event no_anomaly
      (fst (analyze_event no_anomaly
        (fst (analyze_event no_anomaly
          (fst (analyze_event no_anomaly init
            (error_event ''Bash'' (JStr ''connection timeout after 30s''))))
          (error_event ''Bash'' (JStr ''connection timeout after 30s''))))
        (error_event ''Bash'' (JStr ''connection timeout after 30s''))))
      (error_event ''Bash'' (JStr ''connection timeout after 30s''))))
    = replicate 4 (error_event ''Bash'' (JStr ''connection timeout after 30s''))
   \<and> (case snd (analyze_event no_anomaly
      (fst (analyze_event no_anomaly
        (fst (analyze_event no_anomaly
          (fst (analyze_event no_anomaly init
            (error_event ''Bash'' (JStr ''connection timeout after 30s''))))
          (error_event ''Bash'' (JStr ''connection timeout after 30s''))))
        (error_event ''Bash'' (JStr ''connection timeout after 30s''))))
      (error_event ''Bash'' (JStr ''connection timeout after 30s''))) of
        Inl err \<Rightarrow> False
      | Inr a \<Rightarrow> error_patterns a
          = [recurring_error (JStr ''Bash'') (JStr ''connection timeout after 30s'') 4 high])"
proof -
  define msg where "msg = ''connection timeout after 30s''"
  define e where "e = error_event ''Bash'' (JStr msg)"
  define s3 where "s3 = fst (analyze_event no_anomaly
        (fst (analyze_event no_anomaly (fst (analyze_event no_anomaly init e)) e)) e)"
  have w3: "recent_events s3 = [e, e, e]"
    by (simp add: s3_def analyze_event_window deque_append_def init_def)
  have e1: "event_type e = ''tool_use''"
    and e2: "get (data e) ''error'' = JStr msg"
    and e3: "get_or (data e) ''tool_name'' (JStr ''unknown'') = JStr ''Bash''"
    and e4: "metrics e = fmempty"
    by (simp_all add: e_def error_event_facts)
  have ne: "msg \<noteq> []"
    by (simp add: msg_def)
  have tr: "truthy (get (data e) ''error'')"
    by (simp add: e2 ne)
  have tk: "tokens msg \<noteq> {}"
    unfolding msg_def by code_simp
  have run: "analyze_event no_anomaly s3 e
      = (fst (analyze_event no_anomaly s3 e), snd (analyze_event no_anomaly s3 e))"
    by simp
  note R = recurring_error_rule [OF e1 tr e3 run]
  from R have w4: "recent_events (fst (analyze_event no_anomaly s3 e)) = [e, e, e, e]"
    by (simp add: w3 deque_append_def)
  have typed: "\<forall>x\<in>set [e, e, e, e]. event_type x = ''tool_use'' \<and> truthy (get (data x) ''error'')
             \<longrightarrow> (\<exists>m. get (data x) ''error'' = JStr m)"
    by (simp add: e2)
  have P: "event_type e = ''tool_use''
      \<and> (\<exists>m. get (data e) ''error'' = JStr m \<and> m \<noteq> [] \<and> similarity_score m msg > 8 / 10)"
    using e1 e2 ne similarity_self [OF tk] by simp
  from R e4 typed obtain m a where m: "get (data e) ''error'' = JStr m"
    and a: "snd (analyze_event no_anomaly s3 e) = Inr a"
    and ep: "error_patterns a =
        (if length (filter (\<lambda>x. event_type x = ''tool_use''
               \<and> (\<exists>m'. get (data x) ''error'' = JStr m' \<and> m' \<noteq> []
                     \<and> similarity_score m' m > 8 / 10)) [e, e, e, e]) > 3
         then [recurring_error (JStr ''Bash'') (JStr m)
                 (length (filter (\<lambda>x. event_type x = ''tool_use''
                    \<and> (\<exists>m'. get (data x) ''error'' = JStr m' \<and> m' \<noteq> []
                          \<and> similarity_score m' m > 8 / 10)) [e, e, e, e])) high]
         else [])"
    unfolding w4 by blast
  from m e2 have mm: "m = msg"
    by simp
  from ep P have "error_patterns a = [recurring_error (JStr ''Bash'') (JStr msg) 4 high]"
    unfolding mm by simp
  with a w4 show ?thesis
    by (simp add: s3_def e_def msg_def numeral_eq_Suc)
qed

text \<open>
  Claim C4 fails for an error text without a word. The text \<open>" "\<close> is truthy, so the
  detector runs, but its set of words is empty and the similarity score of the text with
  itself is 0, not 1. After four \<open>tool_use\<close> events with this identical error text, the
  window holds the four events and the fourth call returns no \<open>recurring_error\<close> finding.
\<close>

theorem blank_error_counterexample:
  "truthy (JStr '' '')
   \<and> similarity_score '' '' '' '' = 0
   \<and> recent_events (fst (analyze_event no_anomaly
      (fst (analyze_event no_anomaly
        (fst (analyze_event no_anomaly
          (fst (analyze_event no_anomaly init
            (error_event ''Bash'' (JStr '' ''))))
          (error_event ''Bash'' (JStr '' ''))))
        (error_event ''Bash'' (JStr '' ''))))
      (error_event ''Bash'' (JStr '' ''))))
    = replicate 4 (error_event ''Bash'' (JStr '' ''))
   \<and> map_sum id error_patterns (snd (analyze_event no_anomaly
      (fst (analyze_event no_anomaly
        (fst (analyze_event no_anomaly
          (fst (analyze_event no_anomaly init
            (error_event ''Bash'' (JStr '' ''))))
          (error_event ''Bash'' (JStr '' ''))))
        (error_event ''Bash'' (JStr '' ''))))
      (error_event ''Bash'' (JStr '' '')))) = Inr []"
proof -
  define e where "e = error_event ''Bash'' (JStr '' '')"
  define s3 where "s3 = fst (analyze_event no_anomaly
        (fst (analyze_event no_anomaly (fst (analyze_event no_anomaly init e)) e)) e)"
  have w3: "recent_events s3 = [e, e, e]"
    by (simp add: s3_def analyze_event_window deque_append_def init_def)
  have e1: "event_type e = ''tool_use''"
    and e2: "get (data e) ''error'' = JStr '' ''"
    and e4: "metrics e = fmempty"
    by (simp_all add: e_def error_event_facts)
  have tr: "truthy (get (data e) ''error'')"
    by (simp add: e2)
  have tk: "tokens '' '' = {}"
    by code_simp
  have sc: "similarity_score m '' '' = 0" for m
    by (rule similarity_no_token [OF tk])
  have w4: "recent_events (fst (analyze_event no_anomaly s3 e)) = [e, e, e, e]"
    by (simp add: analyze_event_window w3 deque_append_def)
  have typed: "\<forall>x\<in>set [e, e, e, e]. event_type x = ''tool_use'' \<and> truthy (get (data x) ''error'')
             \<longrightarrow> (\<exists>m. get (data x) ''error'' = JStr m)"
    by (simp add: e2)
  have sim: "similar_errors [e, e, e, e] (JStr '' '') = Inr []"
    by (subst similar_errors_filter [OF typed]) (simp add: sc)
  have dq: "deque_append 1000 (recent_events s3) e = [e, e, e, e]"
    by (simp add: w3 deque_append_def)
  from e4 have "metrics e = fmempty \<or> hashable (get_or (data e) ''tool_name'' (JStr ''unknown''))"
    by simp
  from error_event_analysis [OF e1 tr this, of s3 no_anomaly, unfolded dq e2 sim]
  have "map_sum id error_patterns (snd (analyze_event no_anomaly s3 e)) = Inr []"
    by auto
  with w4 sc [of "'' ''"] show ?thesis
    by (simp add: s3_def e_def numeral_eq_Suc)
qed

section \<open>Exceptions raised by a detector\<close>

lemma analyze_events_append:
  assumes "analyze_events clf s pre ps = (s1, Inr ps1)"
  shows "analyze_events clf s (pre @ es) ps = analyze_events clf s1 es ps1"
  using assms
proof (induction pre arbitrary: s ps)
  case Nil
  then show ?case by simp
next
  case (Cons e pre)
  obtain s' r' where a: "analyze_event clf s e = (s', r')"
    by (cases "analyze_event clf s e")
  show ?case
  proof (cases r')
    case (Inl err)
    with Cons.prems a show ?thesis by simp
  next
    case (Inr an)
    with Cons.prems a Cons.IH show ?thesis by simp
  qed
qed

lemma similar_errors_raises:
  assumes "\<exists>x\<in>set xs. event_type x = ''tool_use'' \<and> truthy (get (data x) ''error'')"
    and "\<forall>m. msg \<noteq> JStr m"
  shows "similar_errors xs msg = Inl AttributeError"
  using assms(1)
proof (induction xs)
  case Nil
  then show ?case by simp
next
  case (Cons x xs)
  have c: "call_similarity_score v msg = Inl AttributeError" for v
    using assms(2) by (cases v; cases msg) simp_all
  show ?case
  proof (cases "event_type x = ''tool_use'' \<and> truthy (get (data x) ''error'')")
    case True
    then show ?thesis by (simp add: c)
  next
    case False
    with Cons show ?thesis by auto
  qed
qed

lemma analyze_bad_error_event:
  assumes "truthy err" and "\<forall>m. err \<noteq> JStr m"
  shows "analyze_event clf s (error_event nm err)
     = (s\<lparr>recent_events := deque_append 1000 (recent_events s) (error_event nm err)\<rparr>,
        Inl AttributeError)"
proof -
  define e where "e = error_event nm err"
  define s0 where "s0 = s\<lparr>recent_events := deque_append 1000 (recent_events s) e\<rparr>"
  have p: "detect_performance_issues s0 e = (s0, Inr [])"
    by (simp add: detect_performance_issues_def e_def error_event_facts)
  have "e \<in> set (recent_events s0)"
    by (simp add: s0_def deque_append_def)
  moreover have "event_type e = ''tool_use'' \<and> truthy (get (data e) ''error'')"
    using assms(1) by (simp add: e_def error_event_facts)
  ultimately have "\<exists>x\<in>set (recent_events s0). event_type x = ''tool_use'' \<and> truthy (get (data x) ''error'')"
    by blast
  from similar_errors_raises [OF this assms(2)]
  have q: "detect_error_patterns s0 e = Inl AttributeError"
    using assms(1) by (simp add: detect_error_patterns_def e_def error_event_facts)
  show ?thesis
    using p q by (simp add: analyze_event_def e_def [symmetric] s0_def [symmetric])
qed

text \<open>
  Claim C1, as the source has it. \<open>analyze_event\<close> has no handler: an exception raised by
  the performance detector, by the error detector or by the success detector leaves
  \<open>analyze_event\<close>, and no analysis of the event is returned. The only handler is the one
  around the whole loop of \<open>analyze_log_file\<close>: when the analysis of an event raises, the
  file's result is the error, the patterns recorded for the earlier events are dropped
  and the events after it are not processed.
\<close>

theorem exception_aborts_analysis:
  "(snd (detect_performance_issues
          (s\<lparr>recent_events := deque_append 1000 (recent_events s) e\<rparr>) e) = Inl err
      \<longrightarrow> snd (analyze_event clf s e) = Inl err)
   \<and> ((\<exists>p. snd (detect_performance_issues
          (s\<lparr>recent_events := deque_append 1000 (recent_events s) e\<rparr>) e) = Inr p)
        \<and> detect_error_patterns (fst (detect_performance_issues
          (s\<lparr>recent_events := deque_append 1000 (recent_events s) e\<rparr>) e)) e = Inl err
      \<longrightarrow> snd (analyze_event clf s e) = Inl err)
   \<and> ((\<exists>p. snd (detect_performance_issues
          (s\<lparr>recent_events := deque_append 1000 (recent_events s) e\<rparr>) e) = Inr p)
        \<and> (\<exists>q. detect_error_patterns (fst (detect_performance_issues
          (s\<lparr>recent_events := deque_append 1000 (recent_events s) e\<rparr>) e)) e = Inr q)
        \<and> snd (detect_success_indicators (fst (detect_performance_issues
          (s\<lparr>recent_events := deque_append 1000 (recent_events s) e\<rparr>) e)) e) = Inl err
      \<longrightarrow> snd (analyze_event clf s e) = Inl err)
   \<and> (analyze_log_file clf s pre = (s1, Inr ps1) \<and> analyze_event clf s1 e = (s2, Inl err)
      \<longrightarrow> analyze_log_file clf s (pre @ e # rest) = (s2, Inl err))"
proof -
  define s0 where "s0 = s\<lparr>recent_events := deque_append 1000 (recent_events s) e\<rparr>"
  obtain sp rp where p: "detect_performance_issues s0 e = (sp, rp)"
    by (cases "detect_performance_issues s0 e")
  obtain sq rq where q: "detect_success_indicators sp e = (sq, rq)"
    by (cases "detect_success_indicators sp e")
  have 1: "rp = Inl err \<longrightarrow> snd (analyze_event clf s e) = Inl err"
    using p by (simp add: analyze_event_def s0_def [symmetric])
  have 2: "(\<exists>p. rp = Inr p) \<and> detect_error_patterns sp e = Inl err
      \<longrightarrow> snd (analyze_event clf s e) = Inl err"
    using p by (auto simp: analyze_event_def s0_def [symmetric])
  have 3: "(\<exists>p. rp = Inr p) \<and> (\<exists>q. detect_error_patterns sp e = Inr q) \<and> rq = Inl err
      \<longrightarrow> snd (analyze_event clf s e) = Inl err"
    using p q by (auto simp: analyze_event_def s0_def [symmetric])
  have 4: "analyze_log_file clf s pre = (s1, Inr ps1) \<and> analyze_event clf s1 e = (s2, Inl err)
      \<longrightarrow> analyze_log_file clf s (pre @ e # rest) = (s2, Inl err)"
    using analyze_events_append [of clf s pre "[]" s1 ps1 "e # rest"]
    by (auto simp: analyze_log_file_def)
  show ?thesis
    using 1 2 3 4 p q unfolding s0_def [symmetric] by simp
qed

theorem exception_aborts_analysis_witness:
  "snd (analyze_event no_anomaly init (error_event ''Bash'' (JInt 500))) = Inl AttributeError
   \<and> snd (analyze_log_file no_anomaly init
        [tool_event ''Bash'' 1, error_event ''Bash'' (JInt 500), tool_event ''Bash'' 2])
      = Inl AttributeError"
proof -
  define e where "e = error_event ''Bash'' (JInt 500)"
  have bad: "analyze_event clf s e
      = (s\<lparr>recent_events := deque_append 1000 (recent_events s) e\<rparr>, Inl AttributeError)" for clf s
    unfolding e_def by (rule analyze_bad_error_event) simp_all
  from run_tool_events [of no_anomaly init "''Bash''" "[1]" "[]"]
  obtain s1 ps1 where pre: "analyze_log_file no_anomaly init [tool_event ''Bash'' 1] = (s1, Inr ps1)"
    by (auto simp: analyze_log_file_def)
  note R = exception_aborts_analysis [of init e AttributeError no_anomaly "[tool_event ''Bash'' 1]"
      s1 ps1 "s1\<lparr>recent_events := deque_append 1000 (recent_events s1) e\<rparr>"
      "[tool_event ''Bash'' 2]"]
  have "snd (analyze_log_file no_anomaly init
        [tool_event ''Bash'' 1, e, tool_event ''Bash'' 2]) = Inl AttributeError"
    using R pre bad [of no_anomaly s1] by simp
  then show ?thesis
    using bad [of no_anomaly init] by (simp add: e_def)
qed

text \<open>
  Claim C1 fails on a log whose first entry is a \<open>tool_use\<close> event with the error code 500
  (a number, not a text): the similarity score raises \<open>AttributeError\<close>, the analysis of the
  file returns this error, and the second event is never processed: it is not in the
  window and its timing is not recorded.
\<close>

theorem detector_exception_counterexample:
  "snd (analyze_log_file no_anomaly init
        [error_event ''Bash'' (JInt 500), tool_event ''Bash'' 2]) = Inl AttributeError
   \<and> recent_events (fst (analyze_log_file no_anomaly init
        [error_event ''Bash'' (JInt 500), tool_event ''Bash'' 2]))
      = [error_event ''Bash'' (JInt 500)]
   \<and> command_timings (fst (analyze_log_file no_anomaly init
        [error_event ''Bash'' (JInt 500), tool_event ''Bash'' 2])) (JStr ''Bash'') = []"
proof -
  have bad: "analyze_event no_anomaly init (error_event ''Bash'' (JInt 500))
      = (init\<lparr>recent_events := deque_append 1000 (recent_events init) (error_event ''Bash'' (JInt 500))\<rparr>,
         Inl AttributeError)"
    by (rule analyze_bad_error_event) simp_all
  show ?thesis
    by (simp add: analyze_log_file_def bad) (simp add: init_def deque_append_def)
qed

section \<open>Long workflows\<close>

lemma overlapping_chunks_short: "length xs < 5 \<Longrightarrow> overlapping_chunks xs = []"
  by (subst overlapping_chunks.simps) simp

lemma overlapping_chunks_long:
  "length xs \<ge> 5 \<Longrightarrow> overlapping_chunks xs = take 5 xs # overlapping_chunks (drop 3 xs)"
  by (subst overlapping_chunks.simps) simp

lemma loop_chunks:
  assumes "length cur \<le> 4"
  shows "tool_sequence_loop digest logs seqs cur
     = seqs @ map (mk_workflow digest) (overlapping_chunks (cur @ steps_of logs))"
  using assms
proof (induction logs arbitrary: seqs cur)
  case Nil
  then show ?case
    by (simp add: steps_of_def overlapping_chunks_short)
next
  case (Cons entry logs)
  show ?case
  proof (cases "tool_bearing entry")
    case False
    with Cons show ?thesis
      by (simp add: steps_of_def)
  next
    case True
    define current where "current = cur @ [mk_step entry]"
    have st: "cur @ steps_of (entry # logs) = current @ steps_of logs"
      using True by (simp add: steps_of_def current_def)
    show ?thesis
    proof (cases "length current \<ge> 5")
      case False
      then have "length current \<le> 4" by simp
      from Cons.IH [OF this, of seqs] False True show ?thesis
        by (simp add: st current_def [symmetric] Let_def)
    next
      case long: True
      with Cons.prems have len: "length current = 5"
        by (simp add: current_def)
      have l2: "length (last_n 2 current) \<le> 4"
        by (simp add: last_n_def)
      have tk: "take 5 (current @ steps_of logs) = current"
        using len by simp
      have dr: "drop 3 (current @ steps_of logs) = last_n 2 current @ steps_of logs"
        using len by (simp add: last_n_def)
      have "overlapping_chunks (current @ steps_of logs)
          = current # overlapping_chunks (last_n 2 current @ steps_of logs)"
        using overlapping_chunks_long [of "current @ steps_of logs"] len tk dr by simp
      with Cons.IH [OF l2, of "seqs @ [mk_workflow digest current]"] long True show ?thesis
        by (simp add: st current_def [symmetric] Let_def)
    qed
  qed
qed

lemma find_tool_sequences_chunks:
  "find_tool_sequences digest logs = map (mk_workflow digest) (overlapping_chunks (steps_of logs))"
  using loop_chunks [of "[]" digest logs "[]"] by (simp add: find_tool_sequences_def)

lemma chunks_length5: "c \<in> set (overlapping_chunks xs) \<Longrightarrow> length c = 5"
proof (induction xs rule: overlapping_chunks.induct)
  case (1 xs)
  show ?case
  proof (cases "length xs \<ge> 5")
    case True
    with 1 show ?thesis
      by (auto simp: overlapping_chunks_long)
  next
    case False
    with 1 show ?thesis
      by (simp add: overlapping_chunks_short)
  qed
qed

lemma chunks_count:
  "length (overlapping_chunks xs) = (if length xs < 5 then 0 else (length xs - 2) div 3)"
proof (induction xs rule: overlapping_chunks.induct)
  case (1 xs)
  show ?case
  proof (cases "length xs \<ge> 5")
    case True
    with 1 have "length (overlapping_chunks xs)
        = Suc (if length xs - 3 < 5 then 0 else (length xs - 3 - 2) div 3)"
      by (simp add: overlapping_chunks_long)
    with True show ?thesis
      by (auto simp: not_less)
  next
    case False
    then show ?thesis
      by (simp add: overlapping_chunks_short)
  qed
qed

lemma chunks_seven:
  "length xs = 7 \<Longrightarrow> overlapping_chunks xs = [take 5 xs]"
  by (simp add: overlapping_chunks_long overlapping_chunks_short)

lemma tool_log_facts:
  "tool_bearing (tool_log nm) = (nm \<noteq> [])"
  "get (tool_log nm) ''tool_name'' = JStr nm"
  "mk_step (tool_log nm) = ToolStep (JStr nm) (JBool True) JNull"
  by (simp_all add: tool_log_def tool_bearing_def mk_step_def get_def get_or_def fmlookup_of_list)

lemma chunks_nth:
  "k < length (overlapping_chunks xs)
     \<Longrightarrow> overlapping_chunks xs ! k = take 5 (drop (3 * k) xs) \<and> 3 * k + 5 \<le> length xs"
proof (induction xs arbitrary: k rule: overlapping_chunks.induct)
  case (1 xs)
  show ?case
  proof (cases "length xs \<ge> 5")
    case False
    with "1.prems" show ?thesis
      by (simp add: overlapping_chunks_short)
  next
    case True
    note long = overlapping_chunks_long [OF True]
    show ?thesis
    proof (cases k)
      case 0
      with True long show ?thesis by simp
    next
      case (Suc j)
      with "1.prems" long have j: "j < length (overlapping_chunks (drop 3 xs))"
        by simp
      from "1.IH" [OF True j]
      have "overlapping_chunks (drop 3 xs) ! j = take 5 (drop (3 * j) (drop 3 xs))"
        and "3 * j + 5 \<le> length (drop 3 xs)"
        by simp_all
      with Suc long True show ?thesis
        by (simp add: add.commute)
    qed
  qed
qed

lemma steps_tools: "map st_tool (map mk_step es) = map (\<lambda>e. get e ''tool_name'') es"
  by (simp add: mk_step_def)

lemma steps_successes:
  "length (filter (\<lambda>t. truthy (st_success t)) (map mk_step es))
     = length (filter (\<lambda>e. truthy (get_or e ''success'' (JBool True))) es)"
  by (simp add: filter_map comp_def mk_step_def)

lemma workflow_nth:
  assumes "k < length (find_tool_sequences digest logs)"
  shows "find_tool_sequences digest logs ! k =
           Workflow
             (digest (map (\<lambda>e. get e ''tool_name'') (take 5 (drop (3 * k) (filter tool_bearing logs)))))
             5
             (map (\<lambda>e. get e ''tool_name'') (take 5 (drop (3 * k) (filter tool_bearing logs))))
             (of_nat (length (filter (\<lambda>e. truthy (get_or e ''success'' (JBool True)))
                        (take 5 (drop (3 * k) (filter tool_bearing logs))))) / 5)
         \<and> 3 * k + 5 \<le> length (filter tool_bearing logs)"
proof -
  define es where "es = take 5 (drop (3 * k) (filter tool_bearing logs))"
  from assms have k: "k < length (overlapping_chunks (steps_of logs))"
    by (simp add: find_tool_sequences_chunks)
  from chunks_nth [OF k]
  have c: "overlapping_chunks (steps_of logs) ! k = take 5 (drop (3 * k) (steps_of logs))"
    and b: "3 * k + 5 \<le> length (steps_of logs)"
    by simp_all
  have st: "take 5 (drop (3 * k) (steps_of logs)) = map mk_step es"
    by (simp add: steps_of_def es_def take_map drop_map)
  from b have len: "length es = 5"
    by (simp add: es_def steps_of_def)
  have "find_tool_sequences digest logs ! k = mk_workflow digest (map mk_step es)"
    using k c st by (simp add: find_tool_sequences_chunks)
  also have "\<dots> = Workflow (digest (map (\<lambda>e. get e ''tool_name'') es)) 5
      (map (\<lambda>e. get e ''tool_name'') es)
      (of_nat (length (filter (\<lambda>e. truthy (get_or e ''success'' (JBool True))) es)) / 5)"
    unfolding mk_workflow_def steps_tools steps_successes by (simp add: len)
  finally show ?thesis
    using b by (simp add: es_def steps_of_def)
qed

lemma steps_of_filter: "steps_of (filter tool_bearing logs) = steps_of logs"
  by (simp add: steps_of_def)

text \<open>
  Claim C6, as the source has it. \<open>find_tool_sequences\<close> accumulates the tool-bearing
  entries of the session in order, whether or not they are adjacent: an entry without a
  tool name is skipped and does not reset the accumulation. Each time the accumulated
  sequence reaches length 5 it emits exactly one record and goes on with the last 2
  entries. So the \<open>k\<close>-th record is made of the tool-bearing entries \<open>3k, \<dots>, 3k + 4\<close>: its
  identifier is the digest of their tool names, its length is 5, its tool list is their
  tool names, and its success rate is the share of them whose \<open>success\<close> is truthy (a
  missing \<open>success\<close> counts as true). \<open>n\<close> tool-bearing entries give \<open>(n - 2) div 3\<close>
  records when \<open>n \<ge> 5\<close> and none below; seven of them give exactly one record, of the
  first five.
\<close>

theorem long_workflow_extraction:
  "find_tool_sequences digest logs = find_tool_sequences digest (filter tool_bearing logs)
   \<and> find_tool_sequences digest logs = map (mk_workflow digest) (overlapping_chunks (steps_of logs))
   \<and> length (find_tool_sequences digest logs)
       = (if length (filter tool_bearing logs) < 5 then 0
          else (length (filter tool_bearing logs) - 2) div 3)
   \<and> (\<forall>k < length (find_tool_sequences digest logs).
         find_tool_sequences digest logs ! k =
           Workflow
             (digest (map (\<lambda>e. get e ''tool_name'') (take 5 (drop (3 * k) (filter tool_bearing logs)))))
             5
             (map (\<lambda>e. get e ''tool_name'') (take 5 (drop (3 * k) (filter tool_bearing logs))))
             (of_nat (length (filter (\<lambda>e. truthy (get_or e ''success'' (JBool True)))
                        (take 5 (drop (3 * k) (filter tool_bearing logs))))) / 5)
         \<and> 3 * k + 5 \<le> length (filter tool_bearing logs))
   \<and> (length cur = 4 \<and> tool_bearing entry \<longrightarrow>
        tool_sequence_loop digest (entry # logs) seqs cur
          = tool_sequence_loop digest logs (seqs @ [mk_workflow digest (cur @ [mk_step entry])])
              (last_n 2 (cur @ [mk_step entry])))
   \<and> (\<not> tool_bearing entry \<longrightarrow>
        tool_sequence_loop digest (entry # logs) seqs cur = tool_sequence_loop digest logs seqs cur)
   \<and> (length (filter tool_bearing logs) = 7 \<longrightarrow>
        find_tool_sequences digest logs =
          [Workflow
             (digest (map (\<lambda>e. get e ''tool_name'') (take 5 (filter tool_bearing logs))))
             5
             (map (\<lambda>e. get e ''tool_name'') (take 5 (filter tool_bearing logs)))
             (of_nat (length (filter (\<lambda>e. truthy (get_or e ''success'' (JBool True)))
                        (take 5 (filter tool_bearing logs)))) / 5)])"
proof -
  have a: "find_tool_sequences digest logs = find_tool_sequences digest (filter tool_bearing logs)"
    by (simp add: find_tool_sequences_chunks steps_of_filter)
  have b: "length (find_tool_sequences digest logs)
       = (if length (filter tool_bearing logs) < 5 then 0
          else (length (filter tool_bearing logs) - 2) div 3)"
    by (simp add: find_tool_sequences_chunks chunks_count steps_of_def)
  have c: "length cur = 4 \<and> tool_bearing entry \<longrightarrow>
        tool_sequence_loop digest (entry # logs) seqs cur
          = tool_sequence_loop digest logs (seqs @ [mk_workflow digest (cur @ [mk_step entry])])
              (last_n 2 (cur @ [mk_step entry]))"
    by (simp add: Let_def)
  have d: "\<not> tool_bearing entry \<longrightarrow>
        tool_sequence_loop digest (entry # logs) seqs cur = tool_sequence_loop digest logs seqs cur"
    by simp
  have e: "find_tool_sequences digest logs =
          [Workflow
             (digest (map (\<lambda>e. get e ''tool_name'') (take 5 (filter tool_bearing logs))))
             5
             (map (\<lambda>e. get e ''tool_name'') (take 5 (filter tool_bearing logs)))
             (of_nat (length (filter (\<lambda>e. truthy (get_or e ''success'' (JBool True)))
                        (take 5 (filter tool_bearing logs)))) / 5)]"
    if seven: "length (filter tool_bearing logs) = 7"
  proof -
    from b seven have one: "length (find_tool_sequences digest logs) = 1"
      by simp
    then have "find_tool_sequences digest logs = [find_tool_sequences digest logs ! 0]"
      by (cases "find_tool_sequences digest logs") simp_all
    moreover from workflow_nth [of 0 digest logs] one
    have "find_tool_sequences digest logs ! 0 =
           Workflow
             (digest (map (\<lambda>e. get e ''tool_name'') (take 5 (filter tool_bearing logs))))
             5
             (map (\<lambda>e. get e ''tool_name'') (take 5 (filter tool_bearing logs)))
             (of_nat (length (filter (\<lambda>e. truthy (get_or e ''success'' (JBool True)))
                        (take 5 (filter tool_bearing logs)))) / 5)"
      by simp
    ultimately show ?thesis
      by simp
  qed
  show ?thesis
  proof (intro conjI)
    show "find_tool_sequences digest logs = find_tool_sequences digest (filter tool_bearing logs)"
      by (rule a)
    show "find_tool_sequences digest logs = map (mk_workflow digest) (overlapping_chunks (steps_of logs))"
      by (rule find_tool_sequences_chunks)
    show "length (find_tool_sequences digest logs)
       = (if length (filter tool_bearing logs) < 5 then 0
          else (length (filter tool_bearing logs) - 2) div 3)"
      by (rule b)
    show "\<forall>k < length (find_tool_sequences digest logs).
         find_tool_sequences digest logs ! k =
           Workflow
             (digest (map (\<lambda>e. get e ''tool_name'') (take 5 (drop (3 * k) (filter tool_bearing logs)))))
             5
             (map (\<lambda>e. get e ''tool_name'') (take 5 (drop (3 * k) (filter tool_bearing logs))))
             (of_nat (length (filter (\<lambda>e. truthy (get_or e ''success'' (JBool True)))
                        (take 5 (drop (3 * k) (filter tool_bearing logs))))) / 5)
         \<and> 3 * k + 5 \<le> length (filter tool_bearing logs)"
      by (intro allI impI) (rule workflow_nth)
    show "length cur = 4 \<and> tool_bearing entry \<longrightarrow>
        tool_sequence_loop digest (entry # logs) seqs cur
          = tool_sequence_loop digest logs (seqs @ [mk_workflow digest (cur @ [mk_step entry])])
              (last_n 2 (cur @ [mk_step entry]))"
      by (rule c)
    show "\<not> tool_bearing entry \<longrightarrow>
        tool_sequence_loop digest (entry # logs) seqs cur = tool_sequence_loop digest logs seqs cur"
      by (rule d)
    show "length (filter tool_bearing logs) = 7 \<longrightarrow>
        find_tool_sequences digest logs =
          [Workflow
             (digest (map (\<lambda>e. get e ''tool_name'') (take 5 (filter tool_bearing logs))))
             5
             (map (\<lambda>e. get e ''tool_name'') (take 5 (filter tool_bearing logs)))
             (of_nat (length (filter (\<lambda>e. truthy (get_or e ''success'' (JBool True)))
                        (take 5 (filter tool_bearing logs)))) / 5)]"
      by (intro impI) (rule e)
  qed
qed

theorem long_workflow_extraction_witness:
  "find_tool_sequences no_digest
     [outcome_log ''Read'' True, outcome_log ''Grep'' True, outcome_log ''Edit'' False,
      outcome_log ''Bash'' True, outcome_log ''Read'' True, outcome_log ''Edit'' True,
      outcome_log ''Bash'' True]
   = [Workflow [] 5 [JStr ''Read'', JStr ''Grep'', JStr ''Edit'', JStr ''Bash'', JStr ''Read''] (4 / 5)]"
proof -
  define logs where
    "logs = [outcome_log ''Read'' True, outcome_log ''Grep'' True, outcome_log ''Edit'' False,
      outcome_log ''Bash'' True, outcome_log ''Read'' True, outcome_log ''Edit'' True,
      outcome_log ''Bash'' True]"
  have f: "filter tool_bearing logs = logs"
    unfolding logs_def by code_simp
  have len: "length (filter tool_bearing logs) = 7"
    unfolding f by (simp add: logs_def)
  have tools: "map (\<lambda>e. get e ''tool_name'') (take 5 logs)
      = [JStr ''Read'', JStr ''Grep'', JStr ''Edit'', JStr ''Bash'', JStr ''Read'']"
    unfolding logs_def by code_simp
  have ok: "length (filter (\<lambda>e. truthy (get_or e ''success'' (JBool True))) (take 5 logs)) = 4"
    unfolding logs_def by code_simp
  from long_workflow_extraction [of no_digest logs "[]" prompt_log "[]"] len
  have "find_tool_sequences no_digest logs =
          [Workflow
             (no_digest (map (\<lambda>e. get e ''tool_name'') (take 5 (filter tool_bearing logs))))
             5
             (map (\<lambda>e. get e ''tool_name'') (take 5 (filter tool_bearing logs)))
             (of_nat (length (filter (\<lambda>e. truthy (get_or e ''success'' (JBool True)))
                        (take 5 (filter tool_bearing logs)))) / 5)]"
    by blast
  then show ?thesis
    unfolding f tools ok by (simp add: logs_def no_digest_def)
qed

text \<open>
  Claim C6 speaks of consecutive tool-bearing events. The source does not ask for
  adjacency: in a session where every tool entry is followed by a prompt entry, no two
  tool-bearing entries are adjacent (there is not one window of three for
  \<open>detect_patterns\<close>), and still a record of five tools is emitted.
\<close>

theorem workflow_across_gaps_counterexample:
  "find_tool_sequences no_digest
     [tool_log ''Read'', prompt_log, tool_log ''Grep'', prompt_log, tool_log ''Edit'', prompt_log,
      tool_log ''Bash'', prompt_log, tool_log ''Write'']
   = [Workflow [] 5 [JStr ''Read'', JStr ''Grep'', JStr ''Edit'', JStr ''Bash'', JStr ''Write''] 1]
   \<and> \<not> tool_bearing prompt_log
   \<and> tool_triples
     [tool_log ''Read'', prompt_log, tool_log ''Grep'', prompt_log, tool_log ''Edit'', prompt_log,
      tool_log ''Bash'', prompt_log, tool_log ''Write''] = []"
  by code_simp

section \<open>Repeated tool sequences\<close>

lemma occurrences_snoc:
  "occurrences (xs @ [t]) u = occurrences xs u + (if key3 t = key3 u then 1 else 0)"
  by (simp add: occurrences_def)

lemma occurrences_cong: "key3 u = key3 t \<Longrightarrow> occurrences xs u = occurrences xs t"
  by (simp add: occurrences_def)

lemma occurrences_zero:
  assumes "key3 t \<notin> key3 ` set xs"
  shows "occurrences xs t = 0"
proof -
  have "\<forall>u\<in>set xs. key3 u \<noteq> key3 t"
    using assms by (metis image_eqI)
  then have "filter (\<lambda>u. key3 u = key3 t) xs = []"
    unfolding filter_empty_conv by blast
  then show ?thesis
    by (simp add: occurrences_def)
qed

lemma counter_add_keys:
  "key3 ` fst ` set (counter_add t c) = insert (key3 t) (key3 ` fst ` set c)"
proof (induction c)
  case Nil
  then show ?case by simp
next
  case (Cons p c)
  obtain u n where p: "p = (u, n)" by (cases p)
  show ?case
  proof (cases "key3 u = key3 t")
    case True
    with p show ?thesis by simp
  next
    case False
    with p Cons show ?thesis by (simp add: insert_commute)
  qed
qed

lemma counter_add_distinct:
  "distinct (map (key3 \<circ> fst) c) \<Longrightarrow> distinct (map (key3 \<circ> fst) (counter_add t c))"
proof (induction c)
  case Nil
  then show ?case by simp
next
  case (Cons p c)
  obtain u n where p: "p = (u, n)" by (cases p)
  show ?case
  proof (cases "key3 u = key3 t")
    case True
    with Cons p show ?thesis by (simp add: image_image)
  next
    case False
    have "key3 u \<notin> (key3 \<circ> fst) ` set (counter_add t c)"
      using counter_add_keys [of t c] Cons.prems False p by (auto simp: image_image)
    with Cons p False show ?thesis by (simp add: image_image)
  qed
qed

lemma counter_add_member:
  assumes "distinct (map (key3 \<circ> fst) c)" and "(u, n) \<in> set (counter_add t c)"
  shows "(key3 u = key3 t \<and> n \<ge> 1 \<and> (u, n - 1) \<in> set c)
       \<or> (u = t \<and> n = 1 \<and> key3 t \<notin> key3 ` fst ` set c)
       \<or> (key3 u \<noteq> key3 t \<and> (u, n) \<in> set c)"
  using assms
proof (induction c)
  case Nil
  then show ?case by simp
next
  case (Cons p c)
  obtain v m where p: "p = (v, m)" by (cases p)
  from Cons.prems(1) p have d: "distinct (map (key3 \<circ> fst) c)"
    and nv: "key3 v \<notin> key3 ` fst ` set c"
    by (simp_all add: image_image comp_def)
  show ?case
  proof (cases "key3 v = key3 t")
    case True
    with Cons.prems(2) p have "(u, n) = (v, m + 1) \<or> (u, n) \<in> set c"
      by simp
    then show ?thesis
    proof
      assume "(u, n) = (v, m + 1)"
      with True p show ?thesis by simp
    next
      assume in_c: "(u, n) \<in> set c"
      then have "key3 u \<in> key3 ` fst ` set c"
        by force
      with nv True have "key3 u \<noteq> key3 t" by auto
      with in_c show ?thesis by simp
    qed
  next
    case False
    with Cons.prems(2) p have "(u, n) = (v, m) \<or> (u, n) \<in> set (counter_add t c)"
      by simp
    then show ?thesis
    proof
      assume "(u, n) = (v, m)"
      with False p show ?thesis by simp
    next
      assume "(u, n) \<in> set (counter_add t c)"
      from Cons.IH [OF d this] False p show ?thesis
        by auto
    qed
  qed
qed

lemma counter_add_invariant:
  assumes "distinct (map (key3 \<circ> fst) c)"
    and "\<forall>(u, n)\<in>set c. u \<in> set xs \<and> n = occurrences xs u"
    and "key3 ` fst ` set c = key3 ` set xs"
  shows "distinct (map (key3 \<circ> fst) (counter_add t c))
     \<and> (\<forall>(u, n)\<in>set (counter_add t c). u \<in> set (xs @ [t]) \<and> n = occurrences (xs @ [t]) u)
     \<and> key3 ` fst ` set (counter_add t c) = key3 ` set (xs @ [t])"
proof -
  have "u \<in> set (xs @ [t]) \<and> n = occurrences (xs @ [t]) u"
    if m: "(u, n) \<in> set (counter_add t c)" for u n
  proof -
    from counter_add_member [OF assms(1) m]
    consider (inc) "key3 u = key3 t" "n \<ge> 1" "(u, n - 1) \<in> set c"
      | (new) "u = t" "n = 1" "key3 t \<notin> key3 ` fst ` set c"
      | (old) "key3 u \<noteq> key3 t" "(u, n) \<in> set c"
      by blast
    then show ?thesis
    proof cases
      case inc
      with assms(2) have "u \<in> set xs" "n - 1 = occurrences xs u" by auto
      with inc show ?thesis by (simp add: occurrences_snoc)
    next
      case new
      with assms(3) have "occurrences xs t = 0"
        by (simp add: occurrences_zero)
      with new show ?thesis by (simp add: occurrences_snoc)
    next
      case old
      with assms(2) have "u \<in> set xs" "n = occurrences xs u" by auto
      with old show ?thesis by (auto simp: occurrences_snoc)
    qed
  qed
  then show ?thesis
    using counter_add_distinct [OF assms(1), of t] counter_add_keys [of t c] assms(3)
    by auto
qed

lemma foldl_counter_invariant:
  assumes "distinct (map (key3 \<circ> fst) c)"
    and "\<forall>(u, n)\<in>set c. u \<in> set xs \<and> n = occurrences xs u"
    and "key3 ` fst ` set c = key3 ` set xs"
  shows "distinct (map (key3 \<circ> fst) (foldl (\<lambda>c t. counter_add t c) c ys))
     \<and> (\<forall>(u, n)\<in>set (foldl (\<lambda>c t. counter_add t c) c ys).
           u \<in> set (xs @ ys) \<and> n = occurrences (xs @ ys) u)
     \<and> key3 ` fst ` set (foldl (\<lambda>c t. counter_add t c) c ys) = key3 ` set (xs @ ys)"
  using assms
proof (induction ys arbitrary: c xs)
  case Nil
  then show ?case by simp
next
  case (Cons t ys)
  from counter_add_invariant [OF Cons.prems, of t]
  have "distinct (map (key3 \<circ> fst) (counter_add t c))"
    "\<forall>(u, n)\<in>set (counter_add t c). u \<in> set (xs @ [t]) \<and> n = occurrences (xs @ [t]) u"
    "key3 ` fst ` set (counter_add t c) = key3 ` set (xs @ [t])"
    by blast+
  from Cons.IH [OF this] show ?case
    by simp
qed

lemma counter_invariant:
  "distinct (map (key3 \<circ> fst) (counter xs))
     \<and> (\<forall>(u, n)\<in>set (counter xs). u \<in> set xs \<and> n = occurrences xs u)
     \<and> key3 ` fst ` set (counter xs) = key3 ` set xs"
  using foldl_counter_invariant [of "[]" "[]" xs] by (simp add: counter_def)


lemma sequence_patterns_member:
  "tool_sequence sq n nm \<in> set (sequence_patterns repr C)
     \<longleftrightarrow> (\<exists>a b c. sq = [a, b, c] \<and> ((a, b, c), n) \<in> set C \<and> 2 \<le> n
                  \<and> nm = suggested_name repr (a, b, c))"
  by (auto simp: sequence_patterns_def image_iff split: prod.splits)

lemma error_retries_no_sequence: "tool_sequence sq n nm \<notin> set (error_retries logs)"
  by (auto simp: error_retries_def)

lemma tool_triples_member:
  "(a, b, c) \<in> set (tool_triples logs)
     \<longleftrightarrow> (\<exists>i. i + 2 < length logs
            \<and> tool_bearing (logs ! i) \<and> tool_bearing (logs ! (i + 1)) \<and> tool_bearing (logs ! (i + 2))
            \<and> a = get (logs ! i) ''tool_name'' \<and> b = get (logs ! (i + 1)) ''tool_name''
            \<and> c = get (logs ! (i + 2)) ''tool_name'')"
proof -
  have "(a, b, c) \<in> set (tool_triples logs)
     \<longleftrightarrow> (\<exists>i. i < length logs - 2
            \<and> tool_bearing (logs ! i) \<and> tool_bearing (logs ! (i + 1)) \<and> tool_bearing (logs ! (i + 2))
            \<and> a = get (logs ! i) ''tool_name'' \<and> b = get (logs ! (i + 1)) ''tool_name''
            \<and> c = get (logs ! (i + 2)) ''tool_name'')"
    by (auto simp: tool_triples_def split: if_splits)
  moreover have "i < length logs - 2 \<longleftrightarrow> i + 2 < length logs" for i
    by arith
  ultimately show ?thesis
    by simp
qed

lemma distinct_key_once:
  assumes "distinct (map f xs)"
  shows "length (filter (\<lambda>x. f x = k) xs) \<le> 1"
  using assms by (induction xs) (auto simp: filter_empty_conv image_iff)


lemma detect_patterns_result:
  assumes "detect_patterns repr logs = Inr ps"
  shows "ps = sequence_patterns repr (counter (tool_triples logs)) @ error_retries logs"
  using assms by (simp add: detect_patterns_def Let_def split: if_splits)

lemma sequence_key_once:
  "length (filter (\<lambda>p. \<exists>a b c n nm. p = tool_sequence [a, b, c] n nm \<and> key3 (a, b, c) = k)
             (sequence_patterns repr (counter xs) @ error_retries logs)) \<le> 1"
proof -
  define Q where "Q = (\<lambda>p. \<exists>a b c n nm. p = tool_sequence [a, b, c] n nm \<and> key3 (a, b, c) = k)"
  define F where "F = filter (\<lambda>(t, n). n \<ge> 2) (counter xs)"
  define g where "g = (\<lambda>(t, n :: nat). case t of (a, b, c) \<Rightarrow>
      tool_sequence [a, b, c] n (suggested_name repr t))"
  have r: "filter Q (error_retries logs) = []"
    unfolding filter_empty_conv Q_def using error_retries_no_sequence by blast
  have qg: "Q (g p) \<longleftrightarrow> (key3 \<circ> fst) p = k" for p
    by (cases p) (auto simp: Q_def g_def split: prod.splits)
  have "distinct (map (key3 \<circ> fst) (counter xs))"
    using counter_invariant [of xs] by blast
  then have d: "distinct (map (key3 \<circ> fst) F)"
    unfolding F_def by (rule distinct_map_filter)
  have "filter Q (map g F) = map g (filter (\<lambda>p. (key3 \<circ> fst) p = k) F)"
    by (simp add: filter_map comp_def qg)
  then have "length (filter Q (map g F)) \<le> 1"
    using distinct_key_once [OF d, of k] by simp
  moreover have "sequence_patterns repr (counter xs) = map g F"
    by (simp add: sequence_patterns_def g_def F_def)
  ultimately have "length (filter Q (sequence_patterns repr (counter xs) @ error_retries logs)) \<le> 1"
    using r by simp
  then show ?thesis
    unfolding Q_def .
qed

text \<open>
  Claim C7. \<open>detect_patterns\<close> slides a window of length 3 over the session log: the
  triples are the tool names of three adjacent entries that all have a tool name. It counts
  the occurrences of each distinct ordered triple and reports every triple that occurs at
  least 2 times, once, with its count and a suggested name made of the first and the last
  tool name: the lower-cased text \<open>first_last_flow\<close> with blanks replaced by underscores.
  Nothing else is reported as a sequence. (Triples are distinct up to Python's \<open>==\<close>; the
  statement is for logs whose tool names are hashable, otherwise \<open>Counter\<close> raises.)
\<close>

theorem repeated_tool_sequences:
  assumes "detect_patterns repr logs = Inr ps"
  shows "(\<forall>a b c. (a, b, c) \<in> set (tool_triples logs)
            \<longleftrightarrow> (\<exists>i. i + 2 < length logs
                  \<and> tool_bearing (logs ! i) \<and> tool_bearing (logs ! (i + 1))
                  \<and> tool_bearing (logs ! (i + 2))
                  \<and> a = get (logs ! i) ''tool_name'' \<and> b = get (logs ! (i + 1)) ''tool_name''
                  \<and> c = get (logs ! (i + 2)) ''tool_name''))
     \<and> (\<forall>sq n nm. tool_sequence sq n nm \<in> set ps \<longrightarrow>
           (\<exists>a b c. sq = [a, b, c] \<and> (a, b, c) \<in> set (tool_triples logs)
              \<and> n = occurrences (tool_triples logs) (a, b, c) \<and> 2 \<le> n
              \<and> nm = suggested_name repr (a, b, c)))
     \<and> (\<forall>t\<in>set (tool_triples logs). 2 \<le> occurrences (tool_triples logs) t \<longrightarrow>
           (\<exists>a b c. key3 (a, b, c) = key3 t
              \<and> tool_sequence [a, b, c] (occurrences (tool_triples logs) t)
                   (suggested_name repr (a, b, c)) \<in> set ps))
     \<and> (\<forall>k. length (filter (\<lambda>p. \<exists>a b c n nm. p = tool_sequence [a, b, c] n nm
                                  \<and> key3 (a, b, c) = k) ps) \<le> 1)
     \<and> (\<forall>f b l. suggested_name repr (JStr f, b, JStr l)
                   = replace_space (lower (f @ ''_'' @ l @ ''_flow'')))"
proof -
  define T where "T = tool_triples logs"
  note ps = detect_patterns_result [OF assms, folded T_def]
  note inv = counter_invariant [of T]
  have seq: "tool_sequence sq n nm \<in> set ps
     \<longleftrightarrow> (\<exists>a b c. sq = [a, b, c] \<and> ((a, b, c), n) \<in> set (counter T) \<and> 2 \<le> n
                  \<and> nm = suggested_name repr (a, b, c))" for sq n nm
    using sequence_patterns_member [of sq n nm repr "counter T"] error_retries_no_sequence [of sq n nm logs]
    by (simp add: ps)
  have cnt: "u \<in> set T \<and> n = occurrences T u" if "(u, n) \<in> set (counter T)" for u n
    using inv that by blast
  have 2: "\<exists>a b c. sq = [a, b, c] \<and> (a, b, c) \<in> set T
              \<and> n = occurrences T (a, b, c) \<and> 2 \<le> n
              \<and> nm = suggested_name repr (a, b, c)"
    if "tool_sequence sq n nm \<in> set ps" for sq n nm
  proof -
    from that seq obtain a b c where "sq = [a, b, c]" "((a, b, c), n) \<in> set (counter T)"
      "2 \<le> n" "nm = suggested_name repr (a, b, c)"
      by blast
    with cnt [of "(a, b, c)" n] show ?thesis
      by blast
  qed
  have 3: "\<exists>a b c. key3 (a, b, c) = key3 t
              \<and> tool_sequence [a, b, c] (occurrences T t) (suggested_name repr (a, b, c)) \<in> set ps"
    if t: "t \<in> set T" and two: "2 \<le> occurrences T t" for t
  proof -
    from t have "key3 t \<in> key3 ` set T" by (rule imageI)
    with inv have "key3 t \<in> key3 ` fst ` set (counter T)" by simp
    then obtain p where p: "p \<in> set (counter T)" and k: "key3 (fst p) = key3 t"
      by (metis imageE)
    obtain u n where "p = (u, n)"
      by (cases p)
    moreover obtain a b c where "u = (a, b, c)"
      by (cases u)
    ultimately have pn: "p = ((a, b, c), n)"
      by simp
    from p pn have un: "((a, b, c), n) \<in> set (counter T)" by simp
    from k pn have k': "key3 (a, b, c) = key3 t" by simp
    from cnt [OF un] have "n = occurrences T (a, b, c)" by simp
    with occurrences_cong [OF k', of T] have n: "n = occurrences T t"
      by simp
    have "tool_sequence [a, b, c] n (suggested_name repr (a, b, c)) \<in> set ps"
      using seq [of "[a, b, c]" n "suggested_name repr (a, b, c)"] un two n by simp
    with k' n show ?thesis
      by (intro exI [of _ a] exI [of _ b] exI [of _ c]) simp
  qed
  have 4: "length (filter (\<lambda>p. \<exists>a b c n nm. p = tool_sequence [a, b, c] n nm
                                  \<and> key3 (a, b, c) = k) ps) \<le> 1" for k
    unfolding ps by (rule sequence_key_once)
  have 5: "suggested_name repr (JStr f, b, JStr l) = replace_space (lower (f @ ''_'' @ l @ ''_flow''))"
    for f b l
    by (simp add: suggested_name_def py_format_def)
  have 1: "(a, b, c) \<in> set T
            \<longleftrightarrow> (\<exists>i. i + 2 < length logs
                  \<and> tool_bearing (logs ! i) \<and> tool_bearing (logs ! (i + 1))
                  \<and> tool_bearing (logs ! (i + 2))
                  \<and> a = get (logs ! i) ''tool_name'' \<and> b = get (logs ! (i + 1)) ''tool_name''
                  \<and> c = get (logs ! (i + 2)) ''tool_name'')" for a b c
    unfolding T_def by (rule tool_triples_member)
  show ?thesis
    unfolding T_def [symmetric]
  proof (intro conjI)
    show "\<forall>a b c. (a, b, c) \<in> set T
            \<longleftrightarrow> (\<exists>i. i + 2 < length logs
                  \<and> tool_bearing (logs ! i) \<and> tool_bearing (logs ! (i + 1))
                  \<and> tool_bearing (logs ! (i + 2))
                  \<and> a = get (logs ! i) ''tool_name'' \<and> b = get (logs ! (i + 1)) ''tool_name''
                  \<and> c = get (logs ! (i + 2)) ''tool_name'')"
      by (intro allI) (rule 1)
    show "\<forall>sq n nm. tool_sequence sq n nm \<in> set ps \<longrightarrow>
           (\<exists>a b c. sq = [a, b, c] \<and> (a, b, c) \<in> set T
              \<and> n = occurrences T (a, b, c) \<and> 2 \<le> n
              \<and> nm = suggested_name repr (a, b, c))"
      by (intro allI impI) (rule 2)
    show "\<forall>t\<in>set T. 2 \<le> occurrences T t \<longrightarrow>
           (\<exists>a b c. key3 (a, b, c) = key3 t
              \<and> tool_sequence [a, b, c] (occurrences T t)
                   (suggested_name repr (a, b, c)) \<in> set ps)"
      by (intro ballI impI) (rule 3)
    show "\<forall>k. length (filter (\<lambda>p. \<exists>a b c n nm. p = tool_sequence [a, b, c] n nm
                                  \<and> key3 (a, b, c) = k) ps) \<le> 1"
      by (intro allI) (rule 4)
    show "\<forall>f b l. suggested_name repr (JStr f, b, JStr l)
                   = replace_space (lower (f @ ''_'' @ l @ ''_flow''))"
      by (intro allI) (rule 5)
  qed
qed

theorem repeated_tool_sequences_witness:
  "detect_patterns no_repr (map tool_log [''Read'', ''Edit'', ''Bash'', ''Read'', ''Edit'', ''Bash''])
     = Inr [tool_sequence [JStr ''Read'', JStr ''Edit'', JStr ''Bash''] 2 ''read_bash_flow'']
   \<and> (JStr ''Read'', JStr ''Edit'', JStr ''Bash'')
       \<in> set (tool_triples (map tool_log [''Read'', ''Edit'', ''Bash'', ''Read'', ''Edit'', ''Bash'']))
   \<and> occurrences (tool_triples (map tool_log [''Read'', ''Edit'', ''Bash'', ''Read'', ''Edit'', ''Bash'']))
       (JStr ''Read'', JStr ''Edit'', JStr ''Bash'') = 2"
proof -
  define logs where "logs = map tool_log [''Read'', ''Edit'', ''Bash'', ''Read'', ''Edit'', ''Bash'']"
  have E: "detect_patterns no_repr logs
     = Inr [tool_sequence [JStr ''Read'', JStr ''Edit'', JStr ''Bash''] 2 ''read_bash_flow'']"
    unfolding logs_def by code_simp
  from repeated_tool_sequences [OF E]
  have "\<forall>sq n nm. tool_sequence sq n nm
          \<in> set [tool_sequence [JStr ''Read'', JStr ''Edit'', JStr ''Bash''] 2 ''read_bash_flow''] \<longrightarrow>
           (\<exists>a b c. sq = [a, b, c] \<and> (a, b, c) \<in> set (tool_triples logs)
              \<and> n = occurrences (tool_triples logs) (a, b, c) \<and> 2 \<le> n
              \<and> nm = suggested_name no_repr (a, b, c))"
    by blast
  then have "\<exists>a b c. [JStr ''Read'', JStr ''Edit'', JStr ''Bash''] = [a, b, c]
      \<and> (a, b, c) \<in> set (tool_triples logs)
      \<and> 2 = occurrences (tool_triples logs) (a, b, c)"
    by fastforce
  then have "(JStr ''Read'', JStr ''Edit'', JStr ''Bash'') \<in> set (tool_triples logs)
      \<and> occurrences (tool_triples logs) (JStr ''Read'', JStr ''Edit'', JStr ''Bash'') = 2"
    by auto
  with E show ?thesis
    by (simp add: logs_def)
qed

section \<open>Analysing a session twice\<close>

lemma build_analysis_clock:
  "build_analysis repr digest now sid logs
     = map_sum id (\<lambda>a. a\<lparr>analysis_timestamp := now\<rparr>) (build_analysis repr digest now' sid logs)"
  by (simp add: build_analysis_def split: sum.splits)

lemma report_content_clock: "report_content (a\<lparr>analysis_timestamp := now\<rparr>) = report_content a"
  by (simp add: report_content_def)

lemma last_save: "last (save_for_batch_processing a pending) = a"
  by (simp add: save_for_batch_processing_def Let_def last_n_def last_drop)

text \<open>
  Claim C8. The content of the report built from a session log (patterns, tool sequences,
  error sequences, session metrics, with the session id and the number of events) is a
  function of the log alone: two calls on the same log give the same content, whatever
  the clock reads and whatever the pending improvements hold, and they raise the same
  exception when one is raised. Only the report's timestamp differs. The result dictionary
  of \<open>analyze_session\<close> is the same in both calls, and when the first call saves its
  report, the second call saves a report of the same content.
\<close>

theorem report_content_idempotent:
  "map_sum id report_content (build_analysis repr digest now1 sid logs)
     = map_sum id report_content (build_analysis repr digest now2 sid logs)
   \<and> snd (analyze_session repr digest now1 logs pending1 event)
     = snd (analyze_session repr digest now2 logs pending2 event)
   \<and> (analyze_session repr digest now1 logs pending event = (saved1, Inr (saved_for_improvement sid n m k))
        \<and> analyze_session repr digest now2 logs saved1 event = (saved2, r2)
      \<longrightarrow> r2 = Inr (saved_for_improvement sid n m k)
          \<and> report_content (last saved2) = report_content (last saved1))"
proof -
  have c: "map_sum id report_content (build_analysis repr digest now1 sid logs)
     = map_sum id report_content (build_analysis repr digest now2 sid logs)" for sid
    by (subst build_analysis_clock [of repr digest now1 sid logs now2])
      (cases "build_analysis repr digest now2 sid logs"; simp add: report_content_clock)
  have r: "snd (analyze_session repr digest now1 logs p1 event)
     = snd (analyze_session repr digest now2 logs p2 event)" for p1 p2
  proof -
    define e where "e = get event ''session_id''"
    have b: "build_analysis repr digest now1 e logs
        = map_sum id (\<lambda>a. a\<lparr>analysis_timestamp := now1\<rparr>) (build_analysis repr digest now2 e logs)"
      by (rule build_analysis_clock)
    show ?thesis
      unfolding analyze_session_def Let_def e_def [symmetric] b
      by (cases "build_analysis repr digest now2 e logs") simp_all
  qed
  have s: "r2 = Inr (saved_for_improvement sid n m k)
          \<and> report_content (last saved2) = report_content (last saved1)"
    if 1: "analyze_session repr digest now1 logs pending event
            = (saved1, Inr (saved_for_improvement sid n m k))"
      and 2: "analyze_session repr digest now2 logs saved1 event = (saved2, r2)"
  proof -
    from r [of pending saved1] 1 2 have r2: "r2 = Inr (saved_for_improvement sid n m k)"
      by simp
    define e where "e = get event ''session_id''"
    from 1 obtain a1 where a1: "build_analysis repr digest now1 e logs = Inr a1"
      and s1: "saved1 = save_for_batch_processing a1 pending"
      by (auto simp: analyze_session_def Let_def e_def split: if_splits sum.splits)
    from 2 r2 obtain a2 where a2: "build_analysis repr digest now2 e logs = Inr a2"
      and s2: "saved2 = save_for_batch_processing a2 saved1"
      by (auto simp: analyze_session_def Let_def e_def split: if_splits sum.splits)
    from c [of e] a1 a2 have "report_content a1 = report_content a2"
      by simp
    with s1 s2 r2 show ?thesis
      by (simp add: last_save)
  qed
  from c r s show ?thesis
    by blast
qed

theorem report_content_idempotent_witness:
  "analyze_session no_repr no_digest ''2025-01-10T10:00:00''
       (map tool_log [''Read'', ''Edit'', ''Bash'', ''Read'', ''Edit'', ''Bash'']) []
       (fmap_of_list [(''session_id'', JStr ''test_session_123'')])
     = (fst (analyze_session no_repr no_digest ''2025-01-10T10:00:00''
          (map tool_log [''Read'', ''Edit'', ''Bash'', ''Read'', ''Edit'', ''Bash'']) []
          (fmap_of_list [(''session_id'', JStr ''test_session_123'')])),
        Inr (saved_for_improvement (JStr ''test_session_123'') 1 1 0))
   \<and> snd (analyze_session no_repr no_digest ''2025-01-10T10:05:00''
       (map tool_log [''Read'', ''Edit'', ''Bash'', ''Read'', ''Edit'', ''Bash''])
       (fst (analyze_session no_repr no_digest ''2025-01-10T10:00:00''
          (map tool_log [''Read'', ''Edit'', ''Bash'', ''Read'', ''Edit'', ''Bash'']) []
          (fmap_of_list [(''session_id'', JStr ''test_session_123'')])))
       (fmap_of_list [(''session_id'', JStr ''test_session_123'')]))
     = Inr (saved_for_improvement (JStr ''test_session_123'') 1 1 0)"
proof -
  define logs where "logs = map tool_log [''Read'', ''Edit'', ''Bash'', ''Read'', ''Edit'', ''Bash'']"
  define ev where "ev = fmap_of_list [(''session_id'', JStr ''test_session_123'')]"
  define saved1 where "saved1 = fst (analyze_session no_repr no_digest ''2025-01-10T10:00:00'' logs [] ev)"
  have "snd (analyze_session no_repr no_digest ''2025-01-10T10:00:00'' logs [] ev)
      = Inr (saved_for_improvement (JStr ''test_session_123'') 1 1 0)"
    unfolding logs_def ev_def by code_simp
  then have 1: "analyze_session no_repr no_digest ''2025-01-10T10:00:00'' logs [] ev
      = (saved1, Inr (saved_for_improvement (JStr ''test_session_123'') 1 1 0))"
    by (simp add: saved1_def prod_eq_iff)
  have 2: "analyze_session no_repr no_digest ''2025-01-10T10:05:00'' logs saved1 ev
      = (fst (analyze_session no_repr no_digest ''2025-01-10T10:05:00'' logs saved1 ev),
         snd (analyze_session no_repr no_digest ''2025-01-10T10:05:00'' logs saved1 ev))"
    by simp
  from report_content_idempotent [where repr = no_repr and digest = no_digest
      and ?now1.0 = "''2025-01-10T10:00:00''" and ?now2.0 = "''2025-01-10T10:05:00''"
      and logs = logs and event = ev and pending = "[]" and ?saved1.0 = saved1
      and sid = "JStr ''test_session_123''" and n = 1 and m = 1 and k = 0
      and ?saved2.0 = "fst (analyze_session no_repr no_digest ''2025-01-10T10:05:00'' logs saved1 ev)"
      and ?r2.0 = "snd (analyze_session no_repr no_digest ''2025-01-10T10:05:00'' logs saved1 ev)"] 1 2
  have "snd (analyze_session no_repr no_digest ''2025-01-10T10:05:00'' logs saved1 ev)
      = Inr (saved_for_improvement (JStr ''test_session_123'') 1 1 0)"
    by blast
  with 1 show ?thesis
    by (simp add: saved1_def logs_def ev_def)
qed

end
